theory Spec2Isabelle
  imports Complex_Main "HOL-Library.Stream" "HOL-Library.Word"
begin

section \<open>The snake engine of game.js (class SnakeGame)\<close>

text \<open>
  The class keeps all of its data in one mutable object. The model is a record of the
  fields the engine logic reads and writes, followed by the parts of the browser that this
  logic talks to: the interval timers of the host (\<open>setInterval\<close>, \<open>clearInterval\<close>), the
  \<open>localStorage\<close> area, and the sequence of numbers that \<open>Math.random\<close> will return.
  Canvas drawing, the audio tones and the DOM overlay and buttons write none of these
  fields and are left out.

  The numbers the engine computes with are modelled as mathematical numbers: grid
  coordinates, scores and intervals as \<open>int\<close>, the board side \<open>canvas.width / gridSize\<close> and
  the random draws as \<open>real\<close>; rounding of doubles in this arithmetic is not part of the
  model. The number that \<open>parseInt\<close> makes of a stored text is modelled with its rounding,
  since any text can be in the store.
\<close>

subsection \<open>Data\<close>

text \<open>
  A JavaScript string is a sequence of 16-bit code units. \<open>ascii\<close> writes a literal of the
  source, all of whose characters are ASCII, as such a sequence.
\<close>

type_synonym codeUnit = "16 word"

type_synonym jsString = "codeUnit list"

definition ascii :: "string \<Rightarrow> jsString" where
  "ascii s = map of_char s"

datatype point = Point (px: int) (py: int)

text \<open>
  The values that \<open>parseInt\<close> can return, and so the values that \<open>highScore\<close> can hold:
  \<open>NaN\<close>, an integer that is a double, or an infinity. Minus zero is not told from zero;
  \<open>-0 || 0\<close> is \<open>0\<close> in any case.
\<close>

datatype number = NaN | Finite int | PosInfinity | NegInfinity

datatype error = TypeError | SecurityError | QuotaExceededError

record game =
  tileCount :: real
  snake :: "point list"
  food :: point
  direction :: point
  nextDirection :: point
  score :: int
  highScore :: number
  gameLoop :: "nat option"
  gameSpeed :: int
  isGameRunning :: bool
  isPaused :: bool
  soundEnabled :: bool
  timers :: "nat \<rightharpoonup> int"
  nextTimerId :: nat
  localStorage :: "jsString \<rightharpoonup> jsString"
  storageRefuses :: "jsString \<Rightarrow> jsString \<Rightarrow> error option"
  setItemLog :: "(jsString \<times> jsString) list"
  randomSource :: "real stream"

text \<open>
  \<open>gameLoop\<close> is \<open>None\<close> for \<open>null\<close> and \<open>Some h\<close> for the handle \<open>h\<close> that \<open>setInterval\<close>
  returned. \<open>timers\<close> holds the intervals that are armed in the host, each with its period
  in milliseconds; every one of them calls \<open>update\<close> when it fires. \<open>localStorage\<close> holds
  the items of the storage area, and \<open>storageRefuses k v\<close> is the error with which the host
  refuses to store the text \<open>v\<close> under the key \<open>k\<close>, if it refuses: a storage area that is
  full, or that the browser has closed for writing, does. \<open>setItemLog\<close> lists the calls of
  \<open>localStorage.setItem\<close> in order, oldest first, whether they returned or threw.

  A call that throws leaves the object as it was at the throw. The model of a method that
  can throw returns \<open>Inl (e, g)\<close> for the error \<open>e\<close> thrown and the state \<open>g\<close> left behind, and
  \<open>Inr g\<close> for a normal return with state \<open>g\<close>; \<open>stateLeft\<close> is the state in either case.
\<close>

type_synonym thrown = "error \<times> game"

definition stateLeft :: "thrown + game \<Rightarrow> game" where
  "stateLeft r = (case r of Inl (e, g) \<Rightarrow> g | Inr g \<Rightarrow> g)"

definition gridSize :: int where
  "gridSize = 20"

definition highScoreKey :: jsString where
  "highScoreKey = ascii ''snakeHighScore''"

subsection \<open>Host functions\<close>

definition setInterval :: "int \<Rightarrow> game \<Rightarrow> nat \<times> game" where
  "setInterval ms g =
     (nextTimerId g,
      g\<lparr>timers := (timers g)(nextTimerId g \<mapsto> ms), nextTimerId := Suc (nextTimerId g)\<rparr>)"

definition clearInterval :: "nat option \<Rightarrow> game \<Rightarrow> game" where
  "clearInterval h g = (case h of None \<Rightarrow> g | Some i \<Rightarrow> g\<lparr>timers := (timers g)(i := None)\<rparr>)"

text \<open>
  \<open>String(n)\<close> for an integral number below \<open>10\<^sup>2\<^sup>1\<close> in size, where JavaScript writes all
  digits: decimal digits, with a minus sign when negative.
\<close>

definition digitChar :: "nat \<Rightarrow> codeUnit" where
  "digitChar d = [0x30, 0x31, 0x32, 0x33, 0x34, 0x35, 0x36, 0x37, 0x38, 0x39] ! d"

fun digits :: "nat \<Rightarrow> jsString" where
  "digits n = (if n < 10 then [digitChar n] else digits (n div 10) @ [digitChar (n mod 10)])"

declare digits.simps [simp del]

definition numberToString :: "int \<Rightarrow> jsString" where
  "numberToString i = (if i < 0 then 0x2D # digits (nat (- i)) else digits (nat i))"

text \<open>
  \<open>localStorage.setItem(k, v)\<close> with a number \<open>v\<close> stores the text of \<open>v\<close>, or throws and
  stores nothing when the host refuses the write.
\<close>

definition setItem :: "jsString \<Rightarrow> int \<Rightarrow> game \<Rightarrow> thrown + game" where
  "setItem k v g =
     (let g1 = g\<lparr>setItemLog := setItemLog g @ [(k, numberToString v)]\<rparr>
      in case storageRefuses g k (numberToString v) of
           None \<Rightarrow> Inr (g1\<lparr>localStorage := (localStorage g)(k \<mapsto> numberToString v)\<rparr>)
         | Some e \<Rightarrow> Inl (e, g1))"

text \<open>
  \<open>parseInt(string)\<close> without a radix, after ECMAScript. Leading white space is dropped:
  the code points of \<open>WhiteSpace\<close> and \<open>LineTerminator\<close>, all of which are single code units.
  One sign is read, a prefix \<open>0x\<close> or \<open>0X\<close> selects radix 16, and the longest run of digits of
  the radix is the value; no digit at all gives \<open>NaN\<close>. In radix 10 an implementation may
  read every significant digit after the twentieth as 0; \<open>zeroes\<close> says whether it does.
  The integer read is then rounded to the nearest double, ties to the even significand,
  and to an infinity from \<open>2\<^sup>1\<^sup>0\<^sup>2\<^sup>4\<close> on.
\<close>

definition isWhiteSpace :: "codeUnit \<Rightarrow> bool" where
  "isWhiteSpace c \<longleftrightarrow>
     c \<in> {0x0009, 0x000A, 0x000B, 0x000C, 0x000D, 0x0020, 0x00A0, 0x1680,
          0x2000, 0x2001, 0x2002, 0x2003, 0x2004, 0x2005, 0x2006, 0x2007, 0x2008, 0x2009,
          0x200A, 0x2028, 0x2029, 0x202F, 0x205F, 0x3000, 0xFEFF}"

definition digitValue :: "codeUnit \<Rightarrow> nat option" where
  "digitValue c =
     (let n = unat c in
      if 48 \<le> n \<and> n \<le> 57 then Some (n - 48)
      else if 97 \<le> n \<and> n \<le> 122 then Some (n - 87)
      else if 65 \<le> n \<and> n \<le> 90 then Some (n - 55)
      else None)"

definition isRadixDigit :: "nat \<Rightarrow> codeUnit \<Rightarrow> bool" where
  "isRadixDigit r c = (case digitValue c of None \<Rightarrow> False | Some v \<Rightarrow> v < r)"

definition radixValue :: "nat \<Rightarrow> jsString \<Rightarrow> nat" where
  "radixValue r z = foldl (\<lambda>a c. a * r + the (digitValue c)) 0 z"

definition significant :: "jsString \<Rightarrow> jsString" where
  "significant z = dropWhile (\<lambda>c. c = 0x30) z"

definition mathInt :: "bool \<Rightarrow> nat \<Rightarrow> jsString \<Rightarrow> nat" where
  "mathInt zeroes r z =
     (if r = 10 \<and> zeroes \<and> 20 < length (significant z)
      then radixValue 10 (take 20 (significant z)) * 10 ^ (length (significant z) - 20)
      else radixValue r z)"

fun bitLength :: "nat \<Rightarrow> nat" where
  "bitLength n = (if n = 0 then 0 else Suc (bitLength (n div 2)))"

declare bitLength.simps [simp del]

definition roundToDouble :: "nat \<Rightarrow> nat option" where
  "roundToDouble n =
     (if n < 2 ^ 53 then Some n
      else (let e = bitLength n - 53;
                q = n div 2 ^ e;
                r = n mod 2 ^ e;
                q' = (if 2 * r > 2 ^ e \<or> (2 * r = 2 ^ e \<and> odd q) then q + 1 else q);
                m = q' * 2 ^ e
            in if m \<ge> 2 ^ 1024 then None else Some m))"

definition toNumber :: "int \<Rightarrow> number" where
  "toNumber i =
     (if 0 \<le> i
      then (case roundToDouble (nat i) of None \<Rightarrow> PosInfinity | Some m \<Rightarrow> Finite (int m))
      else (case roundToDouble (nat (- i)) of None \<Rightarrow> NegInfinity | Some m \<Rightarrow> Finite (- int m)))"

definition parseInt :: "bool \<Rightarrow> jsString \<Rightarrow> number" where
  "parseInt zeroes inputString =
     (let s = dropWhile isWhiteSpace inputString;
          sgn = (if s \<noteq> [] \<and> hd s = 0x2D then - 1 else 1 :: int);
          s1 = (if s \<noteq> [] \<and> (hd s = 0x2B \<or> hd s = 0x2D) then tl s else s);
          hex = (take 2 s1 = [0x30, 0x78] \<or> take 2 s1 = [0x30, 0x58]);
          r = (if hex then 16 else 10);
          s2 = (if hex then drop 2 s1 else s1);
          z = takeWhile (isRadixDigit r) s2
      in if z = [] then NaN else toNumber (sgn * int (mathInt zeroes r z)))"

text \<open>
  \<open>localStorage.getItem\<close> answers \<open>null\<close> for a missing key, and \<open>parseInt(null)\<close> parses
  the text \<open>null\<close>. \<open>n || 0\<close> is \<open>0\<close> when \<open>n\<close> is \<open>NaN\<close> or zero and \<open>n\<close> otherwise.
  \<open>exceeds s h\<close> is the comparison \<open>s > h\<close> of a score with a high score.
\<close>

definition getItemText :: "(jsString \<rightharpoonup> jsString) \<Rightarrow> jsString \<Rightarrow> jsString" where
  "getItemText store k = (case store k of None \<Rightarrow> ascii ''null'' | Some v \<Rightarrow> v)"

definition orZero :: "number \<Rightarrow> number" where
  "orZero n = (case n of NaN \<Rightarrow> Finite 0 | Finite v \<Rightarrow> if v = 0 then Finite 0 else Finite v
               | PosInfinity \<Rightarrow> PosInfinity | NegInfinity \<Rightarrow> NegInfinity)"

definition exceeds :: "int \<Rightarrow> number \<Rightarrow> bool" where
  "exceeds s h = (case h of NaN \<Rightarrow> False | Finite v \<Rightarrow> v < s
                  | PosInfinity \<Rightarrow> False | NegInfinity \<Rightarrow> True)"

subsection \<open>Food\<close>

definition isSnakeOnPosition :: "game \<Rightarrow> int \<Rightarrow> int \<Rightarrow> bool" where
  "isSnakeOnPosition g x y = list_ex (\<lambda>segment. px segment = x \<and> py segment = y) (snake g)"

text \<open>
  The \<open>do ... while\<close> loop of \<open>generateFood\<close> has no bound on its rounds, so the model is a
  partial function: \<open>None\<close> stands for a call that never returns. Each round takes two
  numbers of \<open>Math.random\<close>, the first for \<open>x\<close>.
\<close>

partial_function (option) generateFood :: "game \<Rightarrow> game option" where
  "generateFood g =
     (let newFood = Point \<lfloor>shd (randomSource g) * tileCount g\<rfloor>
                          \<lfloor>shd (stl (randomSource g)) * tileCount g\<rfloor>;
          g1 = g\<lparr>randomSource := stl (stl (randomSource g))\<rparr>
      in if isSnakeOnPosition g1 (px newFood) (py newFood) then generateFood g1
         else Some (g1\<lparr>food := newFood\<rparr>))"

definition resetGame :: "game \<Rightarrow> game option" where
  "resetGame g =
     generateFood
       (g\<lparr>snake := [Point 10 10, Point 9 10, Point 8 10],
          direction := Point 1 0,
          nextDirection := Point 1 0,
          score := 0\<rparr>)"

subsection \<open>Lifecycle\<close>

definition stopGame :: "game \<Rightarrow> game" where
  "stopGame g = clearInterval (gameLoop g) (g\<lparr>isGameRunning := False, isPaused := False\<rparr>)"

definition startGame :: "game \<Rightarrow> game option" where
  "startGame g =
     (if isGameRunning g then Some g
      else case resetGame g of
             None \<Rightarrow> None
           | Some g1 \<Rightarrow>
               (let g2 = g1\<lparr>isGameRunning := True, isPaused := False\<rparr>;
                    (h, g3) = setInterval (gameSpeed g2) g2
                in Some (g3\<lparr>gameLoop := Some h\<rparr>)))"

definition pauseGame :: "game \<Rightarrow> game" where
  "pauseGame g =
     (if \<not> isGameRunning g \<or> isPaused g then g
      else clearInterval (gameLoop g) (g\<lparr>isPaused := True\<rparr>))"

definition resumeGame :: "game \<Rightarrow> game" where
  "resumeGame g =
     (if \<not> isGameRunning g \<or> \<not> isPaused g then g
      else (let g1 = g\<lparr>isPaused := False\<rparr>;
                (h, g2) = setInterval (gameSpeed g1) g1
            in g2\<lparr>gameLoop := Some h\<rparr>))"

definition restartGame :: "game \<Rightarrow> game option" where
  "restartGame g = startGame (stopGame g)"

definition gameOver :: "game \<Rightarrow> thrown + game" where
  "gameOver g =
     (let g1 = stopGame g
      in if exceeds (score g1) (highScore g1)
         then setItem highScoreKey (score g1) (g1\<lparr>highScore := Finite (score g1)\<rparr>)
         else Inr g1)"

subsection \<open>The tick\<close>

definition checkCollision :: "game \<Rightarrow> point \<Rightarrow> bool" where
  "checkCollision g head =
     (if real_of_int (px head) < 0 \<or> real_of_int (px head) \<ge> tileCount g
         \<or> real_of_int (py head) < 0 \<or> real_of_int (py head) \<ge> tileCount g
      then True
      else list_ex (\<lambda>segment. px head = px segment \<and> py head = py segment) (snake g))"

text \<open>
  \<open>this.snake[0].x\<close> on an empty array reads a property of \<open>undefined\<close>, which throws a
  \<open>TypeError\<close>. \<open>unshift\<close> puts the head in front and \<open>pop\<close> takes the last element off the
  array that already holds the new head. A tick that runs into \<open>gameOver\<close> throws what the
  write in \<open>gameOver\<close> throws.
\<close>

definition update :: "game \<Rightarrow> (thrown + game) option" where
  "update g =
     (let g1 = g\<lparr>direction := nextDirection g\<rparr>
      in case snake g1 of
           [] \<Rightarrow> Some (Inl (TypeError, g1))
         | s0 # _ \<Rightarrow>
             (let head = Point (px s0 + px (direction g1)) (py s0 + py (direction g1))
              in if checkCollision g1 head then Some (gameOver g1)
                 else (let g2 = g1\<lparr>snake := head # snake g1\<rparr>
                       in if px head = px (food g2) \<and> py head = py (food g2)
                          then map_option Inr (generateFood (g2\<lparr>score := score g2 + 10\<rparr>))
                          else Some (Inr (g2\<lparr>snake := butlast (snake g2)\<rparr>)))))"

subsection \<open>Settings and input\<close>

definition setDifficulty :: "string \<Rightarrow> game \<Rightarrow> game" where
  "setDifficulty difficulty g =
     (let g1 = (if difficulty = ''easy'' then g\<lparr>gameSpeed := 200\<rparr>
                else if difficulty = ''medium'' then g\<lparr>gameSpeed := 150\<rparr>
                else if difficulty = ''hard'' then g\<lparr>gameSpeed := 100\<rparr>
                else g)
      in if isGameRunning g1 \<and> \<not> isPaused g1
         then (let g2 = clearInterval (gameLoop g1) g1;
                   (h, g3) = setInterval (gameSpeed g2) g2
               in g3\<lparr>gameLoop := Some h\<rparr>)
         else g1)"

definition setSoundEnabled :: "bool \<Rightarrow> game \<Rightarrow> game" where
  "setSoundEnabled enabled g = g\<lparr>soundEnabled := enabled\<rparr>"

definition changeDirection :: "point \<Rightarrow> game \<Rightarrow> game" where
  "changeDirection newDirection g =
     (if px newDirection \<noteq> 0 \<and> px (direction g) \<noteq> 0 then g
      else if py newDirection \<noteq> 0 \<and> py (direction g) \<noteq> 0 then g
      else g\<lparr>nextDirection := Point (px newDirection) (py newDirection)\<rparr>)"

subsection \<open>Construction\<close>

text \<open>
  The constructor reads the canvas width and \<open>localStorage\<close> from the page. The width is an
  unsigned integer attribute of the canvas element. What the browser gives is a record:
  the items of the storage area, or \<open>None\<close> when the browser denies storage and throws a
  \<open>SecurityError\<close> as \<open>localStorage\<close> is touched; which writes the storage area refuses; and
  how its \<open>parseInt\<close> reads long numbers. The constructor has no handler around the read, so
  the error leaves it, and then there is no game. The elements of the page that the
  constructor looks up are taken to be there.
\<close>

record browser =
  storageArea :: "(jsString \<rightharpoonup> jsString) option"
  refusesWrites :: "jsString \<Rightarrow> jsString \<Rightarrow> error option"
  zeroesLongDigits :: bool

definition constructor :: "nat \<Rightarrow> browser \<Rightarrow> real stream \<Rightarrow> (error + game) option" where
  "constructor canvasWidth page rnd =
     (case storageArea page of
        None \<Rightarrow> Some (Inl SecurityError)
      | Some store \<Rightarrow>
          map_option Inr
            (resetGame
               \<lparr>tileCount = real canvasWidth / real_of_int gridSize,
                snake = [],
                food = Point 0 0,
                direction = Point 0 0,
                nextDirection = Point 0 0,
                score = 0,
                highScore =
                  orZero (parseInt (zeroesLongDigits page) (getItemText store highScoreKey)),
                gameLoop = None,
                gameSpeed = 150,
                isGameRunning = False,
                isPaused = False,
                soundEnabled = True,
                timers = Map.empty,
                nextTimerId = 0,
                localStorage = store,
                storageRefuses = refusesWrites page,
                setItemLog = [],
                randomSource = rnd\<rparr>))"

subsection \<open>Commands and reachable states\<close>

datatype command =
    Start
  | Pause
  | Resume
  | Restart
  | SetDifficulty string
  | SetSoundEnabled bool
  | ChangeDirection point

fun run :: "command \<Rightarrow> game \<Rightarrow> game option" where
  "run Start g = startGame g"
| "run Pause g = Some (pauseGame g)"
| "run Resume g = Some (resumeGame g)"
| "run Restart g = restartGame g"
| "run (SetDifficulty d) g = Some (setDifficulty d g)"
| "run (SetSoundEnabled b) g = Some (setSoundEnabled b g)"
| "run (ChangeDirection d) g = Some (changeDirection d g)"

text \<open>
  A state is reachable when the constructor returned it, when a command run on a
  reachable state returned it, or when an armed timer fired on a reachable state and
  \<open>update\<close> returned it or left it behind as it threw.
\<close>

inductive reachable :: "game \<Rightarrow> bool" where
  constructed: "constructor w st rnd = Some (Inr g) \<Longrightarrow> reachable g"
| commanded: "reachable g \<Longrightarrow> run c g = Some g' \<Longrightarrow> reachable g'"
| ticked: "reachable g \<Longrightarrow> timers g \<noteq> Map.empty \<Longrightarrow> update g = Some (Inr g') \<Longrightarrow> reachable g'"
| thrown: "reachable g \<Longrightarrow> timers g \<noteq> Map.empty \<Longrightarrow> update g = Some (Inl (e, g')) \<Longrightarrow>
    reachable g'"

subsection \<open>Notions used in the statements\<close>

text \<open>
  \<open>drawAt g k\<close> is the cell that round \<open>k\<close> of the loop in \<open>generateFood\<close> draws when the
  call starts in state \<open>g\<close>. \<open>unitDraws\<close> says that every number of \<open>Math.random\<close> lies in
  the half-open unit interval. \<open>inBounds\<close> is the negation of the first test of
  \<open>checkCollision\<close>. \<open>candidateHead\<close> is the cell that \<open>update\<close> computes after it has
  committed \<open>nextDirection\<close>.
\<close>

definition drawAt :: "game \<Rightarrow> nat \<Rightarrow> point" where
  "drawAt g k =
     Point \<lfloor>randomSource g !! (2 * k) * tileCount g\<rfloor>
           \<lfloor>randomSource g !! (2 * k + 1) * tileCount g\<rfloor>"

definition unitDraws :: "game \<Rightarrow> bool" where
  "unitDraws g \<longleftrightarrow> (\<forall>i. 0 \<le> randomSource g !! i \<and> randomSource g !! i < 1)"

definition inBounds :: "game \<Rightarrow> point \<Rightarrow> bool" where
  "inBounds g p \<longleftrightarrow>
     0 \<le> px p \<and> real_of_int (px p) < tileCount g \<and>
     0 \<le> py p \<and> real_of_int (py p) < tileCount g"

definition candidateHead :: "game \<Rightarrow> point" where
  "candidateHead g =
     Point (px (hd (snake g)) + px (nextDirection g)) (py (hd (snake g)) + py (nextDirection g))"

text \<open>
  The facts that hold in every reachable state: a paused game is a running one, the food
  is off the snake, the snake has a head, and the host holds exactly one armed interval,
  the one in \<open>gameLoop\<close> with period \<open>gameSpeed\<close>, while the game runs unpaused and none
  otherwise; the handle in \<open>gameLoop\<close> is older than the next one the host will give out.
\<close>

definition invariant :: "game \<Rightarrow> bool" where
  "invariant g \<longleftrightarrow>
     (isPaused g \<longrightarrow> isGameRunning g) \<and>
     food g \<notin> set (snake g) \<and>
     snake g \<noteq> [] \<and>
     (if isGameRunning g \<and> \<not> isPaused g
      then \<exists>h. gameLoop g = Some h \<and> timers g = [h \<mapsto> gameSpeed g]
      else timers g = Map.empty) \<and>
     (\<forall>h. gameLoop g = Some h \<longrightarrow> h < nextTimerId g)"

text \<open>
  \<open>conflicts g d\<close> is the test of \<open>changeDirection\<close> in the words of its comment: the
  request \<open>d\<close> moves along an axis on which the current direction already moves.
\<close>

definition conflicts :: "game \<Rightarrow> point \<Rightarrow> bool" where
  "conflicts g d \<longleftrightarrow>
     (px d \<noteq> 0 \<and> px (direction g) \<noteq> 0) \<or> (py d \<noteq> 0 \<and> py (direction g) \<noteq> 0)"

subsection \<open>Example states\<close>

text \<open>
  \<open>plainBrowser\<close> has an empty storage area that accepts every write. \<open>freshGame\<close> is the
  state after construction in it on a canvas 400 pixels wide, with a random source that
  always answers one quarter, so that every food cell drawn is \<open>(5, 5)\<close>. \<open>runningGame\<close> is
  \<open>freshGame\<close> after \<open>startGame\<close>. \<open>marched k\<close> is \<open>runningGame\<close> after \<open>k\<close> ticks to the right
  without food. \<open>eatingGame\<close> has the food in front of the head. \<open>coiledGame\<close> has a snake
  of five cells that moves up and is asked to turn right, into its own body. \<open>overGame\<close> is
  \<open>marched 9\<close> after the tick into the right wall. \<open>recordGame\<close> stands at the right wall
  with a score of 120 over a high score of 100; \<open>deniedGame\<close> is the same state with a
  storage area that refuses every write, and \<open>deniedOver\<close> is the state that the tick into
  the wall leaves of it.

  \<open>quotaBrowser\<close> has an empty storage area that can be read and refuses every write with
  a \<open>QuotaExceededError\<close>, as a storage area without quota does. With the random source
  \<open>fedSource\<close> the first two food cells drawn are \<open>(11, 10)\<close>, the cell in front of the new
  snake, and all later ones \<open>(5, 5)\<close>. \<open>quotaFresh\<close> is the state after construction in
  \<open>quotaBrowser\<close> with this source, \<open>quotaRunning\<close> the state after \<open>startGame\<close>, \<open>quotaFed k\<close>
  the state after the tick that eats the food and \<open>k\<close> more ticks to the right, and
  \<open>quotaOver\<close> the state that the tick into the right wall leaves of \<open>quotaFed 8\<close>.
\<close>

definition plainBrowser :: browser where
  "plainBrowser =
     \<lparr>storageArea = Some Map.empty, refusesWrites = (\<lambda>k v. None), zeroesLongDigits = False\<rparr>"

definition freshGame :: game where
  "freshGame =
     \<lparr>tileCount = 20,
      snake = [Point 10 10, Point 9 10, Point 8 10],
      food = Point 5 5,
      direction = Point 1 0,
      nextDirection = Point 1 0,
      score = 0,
      highScore = Finite 0,
      gameLoop = None,
      gameSpeed = 150,
      isGameRunning = False,
      isPaused = False,
      soundEnabled = True,
      timers = Map.empty,
      nextTimerId = 0,
      localStorage = Map.empty,
      storageRefuses = (\<lambda>k v. None),
      setItemLog = [],
      randomSource = sconst (1 / 4)\<rparr>"

definition runningGame :: game where
  "runningGame =
     freshGame\<lparr>gameLoop := Some 0, isGameRunning := True, timers := [0 \<mapsto> 150],
               nextTimerId := 1\<rparr>"

definition marched :: "nat \<Rightarrow> game" where
  "marched k =
     runningGame\<lparr>snake := [Point (10 + int k) 10, Point (9 + int k) 10, Point (8 + int k) 10]\<rparr>"


definition coiledGame :: game where
  "coiledGame =
     runningGame\<lparr>snake := [Point 5 5, Point 5 6, Point 6 6, Point 6 5, Point 7 5],
                 direction := Point 0 (- 1), nextDirection := Point 1 0\<rparr>"

definition overGame :: game where
  "overGame = (marched 9)\<lparr>isGameRunning := False, timers := Map.empty\<rparr>"

definition recordGame :: game where
  "recordGame = (marched 9)\<lparr>score := 120, highScore := Finite 100\<rparr>"

definition deniedGame :: game where
  "deniedGame = recordGame\<lparr>storageRefuses := (\<lambda>k v. Some QuotaExceededError)\<rparr>"

definition deniedOver :: game where
  "deniedOver =
     deniedGame\<lparr>isGameRunning := False, timers := Map.empty, highScore := Finite 120,
                 setItemLog := [(highScoreKey, ascii ''120'')]\<rparr>"

definition quotaBrowser :: browser where
  "quotaBrowser =
     \<lparr>storageArea = Some Map.empty, refusesWrites = (\<lambda>k v. Some QuotaExceededError),
      zeroesLongDigits = False\<rparr>"

definition fedSource :: "real stream" where
  "fedSource = 11 / 20 ## 1 / 2 ## 11 / 20 ## 1 / 2 ## sconst (1 / 4)"

definition quotaFresh :: game where
  "quotaFresh =
     freshGame\<lparr>food := Point 11 10, storageRefuses := (\<lambda>k v. Some QuotaExceededError),
                randomSource := 11 / 20 ## 1 / 2 ## sconst (1 / 4)\<rparr>"

definition quotaRunning :: game where
  "quotaRunning =
     runningGame\<lparr>food := Point 11 10, storageRefuses := (\<lambda>k v. Some QuotaExceededError)\<rparr>"

definition quotaFed :: "nat \<Rightarrow> game" where
  "quotaFed k =
     runningGame\<lparr>snake := [Point (11 + int k) 10, Point (10 + int k) 10, Point (9 + int k) 10,
                           Point (8 + int k) 10],
                 score := 10, storageRefuses := (\<lambda>k v. Some QuotaExceededError)\<rparr>"

definition quotaOver :: game where
  "quotaOver =
     (quotaFed 8)\<lparr>isGameRunning := False, timers := Map.empty, highScore := Finite 10,
                   setItemLog := [(highScoreKey, ascii ''10'')]\<rparr>"

lemmas example_defs = freshGame_def runningGame_def marched_def

section \<open>Food generation\<close>

lemma isSnakeOnPosition_set: "isSnakeOnPosition g x y \<longleftrightarrow> Point x y \<in> set (snake g)"
  by (force simp: isSnakeOnPosition_def list_ex_iff)

lemma generateFood_unfold:
  "generateFood g =
     (if drawAt g 0 \<in> set (snake g)
      then generateFood (g\<lparr>randomSource := stl (stl (randomSource g))\<rparr>)
      else Some (g\<lparr>randomSource := stl (stl (randomSource g)), food := drawAt g 0\<rparr>))"
  by (subst generateFood.simps) (simp add: Let_def isSnakeOnPosition_set drawAt_def)

lemma drawAt_Suc: "drawAt (g\<lparr>randomSource := stl (stl (randomSource g))\<rparr>) k = drawAt g (Suc k)"
  by (simp add: drawAt_def)

lemma generateFood_least:
  "drawAt g k \<notin> set (snake g) \<Longrightarrow> (\<forall>j<k. drawAt g j \<in> set (snake g)) \<Longrightarrow>
   generateFood g =
     Some (g\<lparr>randomSource := sdrop (2 * k) (stl (stl (randomSource g))), food := drawAt g k\<rparr>)"
proof (induction k arbitrary: g)
  case 0
  then show ?case by (subst generateFood_unfold) simp
next
  case (Suc k)
  let ?g1 = "g\<lparr>randomSource := stl (stl (randomSource g))\<rparr>"
  from Suc.prems have hit: "drawAt g 0 \<in> set (snake g)" by simp
  have free: "drawAt ?g1 k \<notin> set (snake ?g1)"
    using Suc.prems(1) by (simp add: drawAt_Suc)
  have busy: "\<forall>j<k. drawAt ?g1 j \<in> set (snake ?g1)"
    using Suc.prems(2) by (simp add: drawAt_Suc)
  have "generateFood g = generateFood ?g1"
    using hit by (subst generateFood_unfold) simp
  also have "\<dots> = Some (?g1\<lparr>randomSource := sdrop (2 * k) (stl (stl (randomSource ?g1))),
                               food := drawAt ?g1 k\<rparr>)"
    by (rule Suc.IH [OF free busy])
  also have "\<dots> = Some (g\<lparr>randomSource := sdrop (2 * Suc k) (stl (stl (randomSource g))),
                               food := drawAt g (Suc k)\<rparr>)"
    by (simp add: drawAt_Suc)
  finally show ?case .
qed

lemma generateFood_returns:
  assumes "drawAt g k \<notin> set (snake g)"
  shows "\<exists>g'. generateFood g = Some g'"
proof -
  define m where "m = (LEAST j. drawAt g j \<notin> set (snake g))"
  have "drawAt g m \<notin> set (snake g)"
    unfolding m_def using assms by (rule LeastI)
  moreover have "\<forall>j<m. drawAt g j \<in> set (snake g)"
    unfolding m_def using not_less_Least by blast
  ultimately have "generateFood g =
      Some (g\<lparr>randomSource := sdrop (2 * m) (stl (stl (randomSource g))), food := drawAt g m\<rparr>)"
    by (rule generateFood_least)
  then show ?thesis by blast
qed

lemma generateFood_frame:
  assumes "generateFood g = Some g'"
  shows "g' = g\<lparr>food := food g', randomSource := randomSource g'\<rparr> \<and> food g' \<notin> set (snake g)"
  using assms
proof (induction rule: generateFood.raw_induct[rotated 1, consumes 1])
  case (1 gf g g')
  let ?g1 = "g\<lparr>randomSource := stl (stl (randomSource g))\<rparr>"
  show ?case
  proof (cases "drawAt g 0 \<in> set (snake g)")
    case True
    with 1(2) have "gf ?g1 = Some g'"
      by (simp add: Let_def isSnakeOnPosition_set drawAt_def)
    from 1(1)[OF this] show ?thesis by simp
  next
    case False
    with 1(2) have "g' = g\<lparr>food := drawAt g 0, randomSource := stl (stl (randomSource g))\<rparr>"
      by (auto simp: Let_def isSnakeOnPosition_set drawAt_def)
    with False show ?thesis by simp
  qed
qed

lemma floor_draw_bounds:
  fixes r t :: real
  assumes "0 \<le> r" "r < 1" "0 < t"
  shows "0 \<le> \<lfloor>r * t\<rfloor> \<and> real_of_int \<lfloor>r * t\<rfloor> < t"
proof -
  have "0 \<le> r * t" using assms by simp
  moreover have "r * t < t" using assms by simp
  moreover have "real_of_int \<lfloor>r * t\<rfloor> \<le> r * t" by simp
  ultimately show ?thesis by linarith
qed

lemma drawAt_inBounds:
  assumes "unitDraws g" and "0 < tileCount g"
  shows "inBounds g (drawAt g k)"
proof -
  have a: "0 \<le> randomSource g !! (2 * k) \<and> randomSource g !! (2 * k) < 1"
    using assms(1) unfolding unitDraws_def by blast
  have b: "0 \<le> randomSource g !! (2 * k + 1) \<and> randomSource g !! (2 * k + 1) < 1"
    using assms(1) unfolding unitDraws_def by blast
  show ?thesis
    using floor_draw_bounds [of "randomSource g !! (2 * k)" "tileCount g"]
          floor_draw_bounds [of "randomSource g !! (2 * k + 1)" "tileCount g"] a b assms(2)
    unfolding inBounds_def drawAt_def point.sel by blast
qed

lemma generateFood_drawn:
  assumes "generateFood g = Some g'"
  shows "\<exists>k. food g' = drawAt g k"
  using assms
proof (induction rule: generateFood.raw_induct[rotated 1, consumes 1])
  case (1 gf g g')
  let ?g1 = "g\<lparr>randomSource := stl (stl (randomSource g))\<rparr>"
  show ?case
  proof (cases "drawAt g 0 \<in> set (snake g)")
    case True
    with 1(2) have "gf ?g1 = Some g'"
      by (simp add: Let_def isSnakeOnPosition_set drawAt_def)
    from 1(1)[OF this] obtain k where "food g' = drawAt ?g1 k" ..
    then have "food g' = drawAt g (Suc k)" by (simp add: drawAt_Suc)
    then show ?thesis ..
  next
    case False
    with 1(2) have "g' = g\<lparr>food := drawAt g 0, randomSource := stl (stl (randomSource g))\<rparr>"
      by (auto simp: Let_def isSnakeOnPosition_set drawAt_def)
    then have "food g' = drawAt g 0" by simp
    then show ?thesis ..
  qed
qed

lemma generateFood_bounds:
  assumes "generateFood g = Some g'" and "unitDraws g" and "0 < tileCount g"
  shows "inBounds g (food g')"
proof -
  from generateFood_drawn [OF assms(1)] obtain k where "food g' = drawAt g k" ..
  then show ?thesis using drawAt_inBounds [OF assms(2,3)] by simp
qed

lemma generateFood_frameE:
  assumes "generateFood g = Some g'"
  obtains f r where "g' = g\<lparr>food := f, randomSource := r\<rparr>" and "f \<notin> set (snake g)"
proof -
  from generateFood_frame [OF assms]
  have "g' = g\<lparr>food := food g', randomSource := randomSource g'\<rparr>"
    and "food g' \<notin> set (snake g)"
    by (rule conjunct1, rule conjunct2)
  then show thesis by (rule that)
qed

lemma resetGame_result:
  assumes "resetGame g = Some g1"
  obtains f r where
    "g1 = g\<lparr>snake := [Point 10 10, Point 9 10, Point 8 10], food := f,
            direction := Point 1 0, nextDirection := Point 1 0, score := 0,
            randomSource := r\<rparr>"
    and "f \<notin> {Point 10 10, Point 9 10, Point 8 10}"
proof -
  let ?g0 = "g\<lparr>snake := [Point 10 10, Point 9 10, Point 8 10], direction := Point 1 0,
               nextDirection := Point 1 0, score := 0\<rparr>"
  from assms have "generateFood ?g0 = Some g1" by (simp add: resetGame_def)
  then obtain f r where g1: "g1 = ?g0\<lparr>food := f, randomSource := r\<rparr>" and f: "f \<notin> set (snake ?g0)"
    by (rule generateFood_frameE)
  show thesis
  proof (rule that)
    show "g1 = g\<lparr>snake := [Point 10 10, Point 9 10, Point 8 10], food := f,
            direction := Point 1 0, nextDirection := Point 1 0, score := 0,
            randomSource := r\<rparr>"
      unfolding g1 by (cases g) simp
    show "f \<notin> {Point 10 10, Point 9 10, Point 8 10}" using f by simp
  qed
qed

lemma startGame_result:
  assumes "\<not> isGameRunning g" and "startGame g = Some g'"
  obtains f r where
    "g' = g\<lparr>snake := [Point 10 10, Point 9 10, Point 8 10], food := f,
            direction := Point 1 0, nextDirection := Point 1 0, score := 0,
            gameLoop := Some (nextTimerId g), isGameRunning := True, isPaused := False,
            timers := (timers g)(nextTimerId g \<mapsto> gameSpeed g),
            nextTimerId := Suc (nextTimerId g),
            randomSource := r\<rparr>"
    and "f \<notin> {Point 10 10, Point 9 10, Point 8 10}"
proof -
  from assms obtain g1 where r: "resetGame g = Some g1"
    by (auto simp: startGame_def split: option.splits)
  from r obtain f r where
    g1: "g1 = g\<lparr>snake := [Point 10 10, Point 9 10, Point 8 10], food := f,
            direction := Point 1 0, nextDirection := Point 1 0, score := 0,
            randomSource := r\<rparr>"
    and f: "f \<notin> {Point 10 10, Point 9 10, Point 8 10}"
    by (rule resetGame_result)
  from assms r have g': "g' = g1\<lparr>isGameRunning := True, isPaused := False,
        timers := (timers g1)(nextTimerId g1 \<mapsto> gameSpeed g1),
        nextTimerId := Suc (nextTimerId g1), gameLoop := Some (nextTimerId g1)\<rparr>"
    by (auto simp: startGame_def setInterval_def)
  show thesis
  proof (rule that)
    show "g' = g\<lparr>snake := [Point 10 10, Point 9 10, Point 8 10], food := f,
            direction := Point 1 0, nextDirection := Point 1 0, score := 0,
            gameLoop := Some (nextTimerId g), isGameRunning := True, isPaused := False,
            timers := (timers g)(nextTimerId g \<mapsto> gameSpeed g),
            nextTimerId := Suc (nextTimerId g),
            randomSource := r\<rparr>"
      unfolding g' g1 by (cases g) simp
    show "f \<notin> {Point 10 10, Point 9 10, Point 8 10}" by (rule f)
  qed
qed

section \<open>The tick, case by case\<close>

lemma point_eq_iff: "p = q \<longleftrightarrow> px p = px q \<and> py p = py q"
  by (auto intro: point.expand)

lemma same_cell_iff: "px p = px q \<and> py p = py q \<longleftrightarrow> p = q"
  by (auto intro: point.expand)

lemma checkCollision_iff:
  "checkCollision g p \<longleftrightarrow> \<not> inBounds g p \<or> p \<in> set (snake g)"
  by (auto simp: checkCollision_def inBounds_def list_ex_iff same_cell_iff)

lemma inBounds_direction [simp]: "inBounds (g\<lparr>direction := d\<rparr>) p = inBounds g p"
  by (simp add: inBounds_def)

lemma update_collide:
  assumes "snake g \<noteq> []"
    and "\<not> inBounds g (candidateHead g) \<or> candidateHead g \<in> set (snake g)"
  shows "update g = Some (gameOver (g\<lparr>direction := nextDirection g\<rparr>))"
proof -
  from assms(1) obtain s0 rest where sn: "snake g = s0 # rest" by (cases "snake g") auto
  have c: "candidateHead g = Point (px s0 + px (nextDirection g)) (py s0 + py (nextDirection g))"
    by (simp add: candidateHead_def sn)
  have "checkCollision (g\<lparr>direction := nextDirection g\<rparr>) (candidateHead g)"
    using assms(2) by (simp add: checkCollision_iff)
  then show ?thesis
    by (simp add: update_def sn Let_def c [symmetric])
qed

lemma update_plain:
  assumes "snake g \<noteq> []" and "inBounds g (candidateHead g)"
    and "candidateHead g \<notin> set (snake g)" and "candidateHead g \<noteq> food g"
  shows "update g =
     Some (Inr (g\<lparr>direction := nextDirection g, snake := candidateHead g # butlast (snake g)\<rparr>))"
proof -
  from assms(1) obtain s0 rest where sn: "snake g = s0 # rest" by (cases "snake g") auto
  have c: "Point (px s0 + px (nextDirection g)) (py s0 + py (nextDirection g)) = candidateHead g"
    by (simp add: candidateHead_def sn)
  have nc: "\<not> checkCollision (g\<lparr>direction := nextDirection g\<rparr>) (candidateHead g)"
    using assms(2,3) by (simp add: checkCollision_iff)
  show ?thesis
    using nc assms(4) by (simp add: update_def sn Let_def c same_cell_iff)
qed

lemma update_eat:
  assumes "snake g \<noteq> []" and "inBounds g (candidateHead g)"
    and "candidateHead g \<notin> set (snake g)" and "candidateHead g = food g"
  shows "update g =
     map_option Inr (generateFood
       (g\<lparr>direction := nextDirection g, snake := candidateHead g # snake g, score := score g + 10\<rparr>))"
proof -
  from assms(1) obtain s0 rest where sn: "snake g = s0 # rest" by (cases "snake g") auto
  have c: "Point (px s0 + px (nextDirection g)) (py s0 + py (nextDirection g)) = candidateHead g"
    by (simp add: candidateHead_def sn)
  have nc: "\<not> checkCollision (g\<lparr>direction := nextDirection g\<rparr>) (candidateHead g)"
    using assms(2,3) by (simp add: checkCollision_iff)
  show ?thesis
    using nc assms(4) by (simp add: update_def sn Let_def c same_cell_iff)
qed

lemma update_empty:
  "snake g = [] \<Longrightarrow> update g = Some (Inl (TypeError, g\<lparr>direction := nextDirection g\<rparr>))"
  by (simp add: update_def)

lemma stateLeft_simps [simp]: "stateLeft (Inr g) = g" "stateLeft (Inl (e, g)) = g"
  by (simp_all add: stateLeft_def)

lemma gameOver_cases:
  obtains (kept) "\<not> exceeds (score g) (highScore g)" "gameOver g = Inr (stopGame g)"
  | (stored) "exceeds (score g) (highScore g)"
      "storageRefuses g highScoreKey (numberToString (score g)) = None"
      "gameOver g =
         Inr ((stopGame g)\<lparr>highScore := Finite (score g),
            setItemLog := setItemLog g @ [(highScoreKey, numberToString (score g))],
            localStorage := (localStorage g)(highScoreKey \<mapsto> numberToString (score g))\<rparr>)"
  | (refused) e where "exceeds (score g) (highScore g)"
      "storageRefuses g highScoreKey (numberToString (score g)) = Some e"
      "gameOver g =
         Inl (e, (stopGame g)\<lparr>highScore := Finite (score g),
            setItemLog := setItemLog g @ [(highScoreKey, numberToString (score g))]\<rparr>)"
proof -
  have sg: "score (stopGame g) = score g" "highScore (stopGame g) = highScore g"
    "storageRefuses (stopGame g) = storageRefuses g" "setItemLog (stopGame g) = setItemLog g"
    "localStorage (stopGame g) = localStorage g"
    by (simp_all add: stopGame_def clearInterval_def split: option.splits)
  consider "\<not> exceeds (score g) (highScore g)"
    | "exceeds (score g) (highScore g)"
        "storageRefuses g highScoreKey (numberToString (score g)) = None"
    | e where "exceeds (score g) (highScore g)"
        "storageRefuses g highScoreKey (numberToString (score g)) = Some e"
    by (cases "storageRefuses g highScoreKey (numberToString (score g))") auto
  then show thesis
  proof cases
    case 1
    then show thesis by (intro kept) (simp_all add: gameOver_def Let_def sg)
  next
    case 2
    then show thesis by (intro stored) (simp_all add: gameOver_def Let_def sg setItem_def)
  next
    case 3
    then show thesis by (intro refused) (simp_all add: gameOver_def Let_def sg setItem_def)
  qed
qed

section \<open>The invariant of reachable states\<close>

lemma invariant_direction [simp]: "invariant (g\<lparr>direction := d\<rparr>) = invariant g"
  by (simp add: invariant_def)

lemma invariant_stopGame: "invariant g \<Longrightarrow> invariant (stopGame g)"
  by (auto simp: invariant_def stopGame_def clearInterval_def split: option.splits if_splits)

lemma gameOver_fields:
  "isGameRunning (stateLeft (gameOver g)) = False"
  "isPaused (stateLeft (gameOver g)) = False"
  "snake (stateLeft (gameOver g)) = snake g"
  "score (stateLeft (gameOver g)) = score g"
  "food (stateLeft (gameOver g)) = food g"
  "direction (stateLeft (gameOver g)) = direction g"
  "nextDirection (stateLeft (gameOver g)) = nextDirection g"
  "timers (stateLeft (gameOver g)) = timers (clearInterval (gameLoop g) g)"
  "tileCount (stateLeft (gameOver g)) = tileCount g"
  "gameSpeed (stateLeft (gameOver g)) = gameSpeed g"
  "randomSource (stateLeft (gameOver g)) = randomSource g"
  "storageRefuses (stateLeft (gameOver g)) = storageRefuses g"
  by (cases g rule: gameOver_cases,
      simp_all add: stopGame_def clearInterval_def split: option.splits)+

lemma invariant_gameOver: "invariant g \<Longrightarrow> invariant (stateLeft (gameOver g))"
proof -
  assume "invariant g"
  then have "invariant (stopGame g)" by (rule invariant_stopGame)
  then show "invariant (stateLeft (gameOver g))"
    by (cases g rule: gameOver_cases) (simp_all add: invariant_def)
qed

lemma invariant_pauseGame: "invariant g \<Longrightarrow> invariant (pauseGame g)"
  by (auto simp: invariant_def pauseGame_def clearInterval_def split: option.splits if_splits)

lemma invariant_resumeGame: "invariant g \<Longrightarrow> invariant (resumeGame g)"
  by (auto simp: invariant_def resumeGame_def setInterval_def split: option.splits if_splits)

lemma invariant_setDifficulty: "invariant g \<Longrightarrow> invariant (setDifficulty d g)"
  by (auto simp: invariant_def setDifficulty_def setInterval_def clearInterval_def Let_def
           split: option.splits if_splits)

lemma invariant_setSoundEnabled: "invariant g \<Longrightarrow> invariant (setSoundEnabled b g)"
  by (simp add: invariant_def setSoundEnabled_def)

lemma invariant_changeDirection: "invariant g \<Longrightarrow> invariant (changeDirection d g)"
  by (simp add: invariant_def changeDirection_def)

lemma invariant_startGame:
  assumes "invariant g" and "startGame g = Some g'"
  shows "invariant g'"
proof (cases "isGameRunning g")
  case True
  with assms show ?thesis by (simp add: startGame_def)
next
  case False
  from startGame_result [OF False assms(2)] obtain f r where
    g': "g' = g\<lparr>snake := [Point 10 10, Point 9 10, Point 8 10], food := f,
            direction := Point 1 0, nextDirection := Point 1 0, score := 0,
            gameLoop := Some (nextTimerId g), isGameRunning := True, isPaused := False,
            timers := (timers g)(nextTimerId g \<mapsto> gameSpeed g),
            nextTimerId := Suc (nextTimerId g),
            randomSource := r\<rparr>"
    and f: "f \<notin> {Point 10 10, Point 9 10, Point 8 10}" .
  from assms(1) False have "timers g = Map.empty" by (simp add: invariant_def)
  with f show ?thesis by (simp add: g' invariant_def)
qed

lemma invariant_restartGame:
  assumes "invariant g" and "restartGame g = Some g'"
  shows "invariant g'"
  using assms invariant_startGame [OF invariant_stopGame] by (simp add: restartGame_def)

lemma invariant_run:
  assumes "invariant g" and "run c g = Some g'"
  shows "invariant g'"
  using assms
  by (cases c)
     (auto intro: invariant_startGame invariant_restartGame invariant_pauseGame
        invariant_resumeGame invariant_setDifficulty invariant_setSoundEnabled
        invariant_changeDirection)

lemma map_option_Inr_eq [simp]: "map_option Inr x = Some (Inr y) \<longleftrightarrow> x = Some y"
  by (cases x) auto

lemma map_option_Inr_eq' [simp]: "Some (Inr y) = map_option Inr x \<longleftrightarrow> x = Some y"
  by (cases x) auto

lemma map_option_Inr_neq [simp]: "map_option Inr x \<noteq> Some (Inl e)"
  by (cases x) auto

lemma map_option_Inr_neq' [simp]: "Some (Inl e) \<noteq> map_option Inr x"
  by (cases x) auto

lemma invariant_update:
  assumes "invariant g" and "update g = Some (Inr g')"
  shows "invariant g'"
proof -
  from assms(1) have ne: "snake g \<noteq> []" and fd: "food g \<notin> set (snake g)"
    by (simp_all add: invariant_def)
  consider
    (collide) "\<not> inBounds g (candidateHead g) \<or> candidateHead g \<in> set (snake g)"
  | (plain) "inBounds g (candidateHead g)" "candidateHead g \<notin> set (snake g)"
      "candidateHead g \<noteq> food g"
  | (eat) "inBounds g (candidateHead g)" "candidateHead g \<notin> set (snake g)"
      "candidateHead g = food g"
    by blast
  then show ?thesis
  proof cases
    case collide
    from update_collide [OF ne collide] assms(2)
    have "gameOver (g\<lparr>direction := nextDirection g\<rparr>) = Inr g'" by simp
    then have "g' = stateLeft (gameOver (g\<lparr>direction := nextDirection g\<rparr>))" by simp
    then show ?thesis using assms(1) by (simp add: invariant_gameOver)
  next
    case plain
    from update_plain [OF ne plain] assms(2)
    have g': "g' = g\<lparr>direction := nextDirection g, snake := candidateHead g # butlast (snake g)\<rparr>"
      by simp
    have "food g \<notin> set (butlast (snake g))"
      using fd by (auto dest: in_set_butlastD)
    then show ?thesis using assms(1) plain(3) by (auto simp: g' invariant_def)
  next
    case eat
    let ?g2 = "g\<lparr>direction := nextDirection g, snake := candidateHead g # snake g,
                 score := score g + 10\<rparr>"
    from update_eat [OF ne eat] assms(2) have "generateFood ?g2 = Some g'" by simp
    then obtain f r where g': "g' = ?g2\<lparr>food := f, randomSource := r\<rparr>"
      and f: "f \<notin> set (snake ?g2)"
      by (rule generateFood_frameE)
    show ?thesis using assms(1) f by (auto simp: g' invariant_def)
  qed
qed

lemma update_throws:
  assumes "update g = Some (Inl (e, g'))" and "snake g \<noteq> []"
  shows "(\<not> inBounds g (candidateHead g) \<or> candidateHead g \<in> set (snake g)) \<and>
         gameOver (g\<lparr>direction := nextDirection g\<rparr>) = Inl (e, g')"
proof -
  consider
    (collide) "\<not> inBounds g (candidateHead g) \<or> candidateHead g \<in> set (snake g)"
  | (plain) "inBounds g (candidateHead g)" "candidateHead g \<notin> set (snake g)"
      "candidateHead g \<noteq> food g"
  | (eat) "inBounds g (candidateHead g)" "candidateHead g \<notin> set (snake g)"
      "candidateHead g = food g"
    by blast
  then show ?thesis
  proof cases
    case collide
    from update_collide [OF assms(2) collide] assms(1) collide show ?thesis by simp
  next
    case plain
    from update_plain [OF assms(2) plain] assms(1) show ?thesis by simp
  next
    case eat
    from update_eat [OF assms(2) eat] assms(1) show ?thesis by simp
  qed
qed

lemma invariant_update_thrown:
  assumes "invariant g" and "update g = Some (Inl (e, g'))"
  shows "invariant g'"
proof -
  from assms(1) have ne: "snake g \<noteq> []" by (simp add: invariant_def)
  from update_throws [OF assms(2) ne]
  have "g' = stateLeft (gameOver (g\<lparr>direction := nextDirection g\<rparr>))" by simp
  then show ?thesis using assms(1) by (simp add: invariant_gameOver)
qed

lemma invariant_constructor:
  assumes "constructor w st rnd = Some (Inr g)"
  shows "invariant g"
proof -
  from assms obtain g0 where "resetGame g0 = Some g"
    and "isGameRunning g0 = False" "isPaused g0 = False" "timers g0 = Map.empty"
    and "gameLoop g0 = None"
    by (auto simp: constructor_def split: option.splits)
  then show ?thesis
    by (auto elim!: resetGame_result simp: invariant_def)
qed

lemma reachable_invariant: "reachable g \<Longrightarrow> invariant g"
  by (induction rule: reachable.induct)
     (auto intro: invariant_constructor invariant_run invariant_update invariant_update_thrown)

section \<open>Pausing\<close>

text \<open>
  Claim C8. \<open>pauseGame\<close> is idempotent: in every state, calling it twice in a row gives the
  state that one call gives. Called while the game is not running, or while it is already
  paused, it changes nothing.
\<close>

theorem pauseGame_idempotent:
  "pauseGame (pauseGame g) = pauseGame g \<and>
   (\<not> isGameRunning g \<or> isPaused g \<longrightarrow> pauseGame g = g)"
  by (simp add: pauseGame_def clearInterval_def split: option.splits)

theorem pauseGame_idempotent_witness:
  "pauseGame (pauseGame runningGame) = pauseGame runningGame \<and>
   isPaused (pauseGame runningGame) \<and> timers (pauseGame runningGame) = Map.empty \<and>
   \<not> isGameRunning freshGame \<and> pauseGame freshGame = freshGame"
  using pauseGame_idempotent [of runningGame] pauseGame_idempotent [of freshGame]
  by (simp add: example_defs pauseGame_def clearInterval_def)

section \<open>Direction requests\<close>

lemma conflicts_changeDirection [simp]: "conflicts (changeDirection d g) e = conflicts g e"
  by (simp add: conflicts_def changeDirection_def)

lemma changeDirection_cases:
  "changeDirection d g = (if conflicts g d then g else g\<lparr>nextDirection := d\<rparr>)"
  by (cases d) (simp add: changeDirection_def conflicts_def)

lemma fold_changeDirection:
  "fold changeDirection ds g =
     (if filter (\<lambda>d. \<not> conflicts g d) ds = [] then g
      else g\<lparr>nextDirection := last (filter (\<lambda>d. \<not> conflicts g d) ds)\<rparr>)"
proof (induction ds arbitrary: g)
  case Nil
  show ?case by simp
next
  case (Cons d ds)
  show ?case
    by (simp add: Cons.IH) (simp add: changeDirection_cases conflicts_def)
qed

lemma update_commits:
  assumes "update g = Some (Inr g')"
  shows "direction g' = nextDirection g"
proof (cases "snake g = []")
  case True
  with assms show ?thesis by (simp add: update_empty)
next
  case ne: False
  consider
    (collide) "\<not> inBounds g (candidateHead g) \<or> candidateHead g \<in> set (snake g)"
  | (plain) "inBounds g (candidateHead g)" "candidateHead g \<notin> set (snake g)"
      "candidateHead g \<noteq> food g"
  | (eat) "inBounds g (candidateHead g)" "candidateHead g \<notin> set (snake g)"
      "candidateHead g = food g"
    by blast
  then show ?thesis
  proof cases
    case collide
    from update_collide [OF ne collide] assms
    have "gameOver (g\<lparr>direction := nextDirection g\<rparr>) = Inr g'" by simp
    then have "g' = stateLeft (gameOver (g\<lparr>direction := nextDirection g\<rparr>))" by simp
    then show ?thesis by (simp add: gameOver_fields)
  next
    case plain
    from update_plain [OF ne plain] assms show ?thesis by auto
  next
    case eat
    let ?g2 = "g\<lparr>direction := nextDirection g, snake := candidateHead g # snake g,
                 score := score g + 10\<rparr>"
    from update_eat [OF ne eat] assms have "generateFood ?g2 = Some g'" by simp
    then obtain f r where "g' = ?g2\<lparr>food := f, randomSource := r\<rparr>"
      by (rule generateFood_frameE)
    then show ?thesis by simp
  qed
qed

text \<open>
  Claim C4. A request \<open>d\<close> that moves along the axis of the current direction leaves the
  state, and with it the pending direction, as it is; any other request overwrites
  \<open>nextDirection\<close> with \<open>d\<close> and touches nothing else. After a run of requests between two
  ticks the pending slot holds the last accepted one, or its old value when none was
  accepted, and the next tick commits exactly that slot into \<open>direction\<close>. With current
  direction \<open>(1, 0)\<close> the request \<open>(-1, 0)\<close> leaves the pending slot alone, while \<open>(0, 1)\<close> and
  \<open>(0, -1)\<close> are written into it.
\<close>

theorem changeDirection_guard:
  "(conflicts g d \<longrightarrow> changeDirection d g = g) \<and>
   (\<not> conflicts g d \<longrightarrow> changeDirection d g = g\<lparr>nextDirection := d\<rparr>) \<and>
   fold changeDirection ds g =
     (if filter (\<lambda>d. \<not> conflicts g d) ds = [] then g
      else g\<lparr>nextDirection := last (filter (\<lambda>d. \<not> conflicts g d) ds)\<rparr>) \<and>
   (update (fold changeDirection ds g) = Some (Inr g') \<longrightarrow>
      direction g' = nextDirection (fold changeDirection ds g)) \<and>
   (direction g = Point 1 0 \<longrightarrow>
      nextDirection (changeDirection (Point (- 1) 0) g) = nextDirection g \<and>
      nextDirection (changeDirection (Point 0 1) g) = Point 0 1 \<and>
      nextDirection (changeDirection (Point 0 (- 1)) g) = Point 0 (- 1))"
proof (intro conjI impI)
  show "conflicts g d \<Longrightarrow> changeDirection d g = g"
    by (simp add: changeDirection_cases)
  show "\<not> conflicts g d \<Longrightarrow> changeDirection d g = g\<lparr>nextDirection := d\<rparr>"
    by (simp add: changeDirection_cases)
  show "fold changeDirection ds g =
     (if filter (\<lambda>d. \<not> conflicts g d) ds = [] then g
      else g\<lparr>nextDirection := last (filter (\<lambda>d. \<not> conflicts g d) ds)\<rparr>)"
    by (rule fold_changeDirection)
  show "update (fold changeDirection ds g) = Some (Inr g') \<Longrightarrow>
      direction g' = nextDirection (fold changeDirection ds g)"
    by (rule update_commits)
  assume "direction g = Point 1 0"
  then show "nextDirection (changeDirection (Point (- 1) 0) g) = nextDirection g"
    and "nextDirection (changeDirection (Point 0 1) g) = Point 0 1"
    and "nextDirection (changeDirection (Point 0 (- 1)) g) = Point 0 (- 1)"
    by (simp_all add: changeDirection_def)
qed

lemma update_turned:
  "update (runningGame\<lparr>nextDirection := Point 0 (- 1)\<rparr>) =
     Some (Inr (runningGame\<lparr>nextDirection := Point 0 (- 1), direction := Point 0 (- 1),
                            snake := [Point 10 9, Point 10 10, Point 9 10]\<rparr>))"
  by (simp add: example_defs update_def checkCollision_def Let_def)

theorem changeDirection_guard_witness:
  "conflicts runningGame (Point (- 1) 0) \<and>
   changeDirection (Point (- 1) 0) runningGame = runningGame \<and>
   \<not> conflicts runningGame (Point 0 1) \<and>
   changeDirection (Point 0 1) runningGame = runningGame\<lparr>nextDirection := Point 0 1\<rparr> \<and>
   fold changeDirection [Point 0 1, Point (- 1) 0, Point 0 (- 1)] runningGame =
     runningGame\<lparr>nextDirection := Point 0 (- 1)\<rparr> \<and>
   update (fold changeDirection [Point 0 1, Point (- 1) 0, Point 0 (- 1)] runningGame) =
     Some (Inr (runningGame\<lparr>nextDirection := Point 0 (- 1), direction := Point 0 (- 1),
                            snake := [Point 10 9, Point 10 10, Point 9 10]\<rparr>)) \<and>
   direction runningGame = Point 1 0"
proof -
  let ?ds = "[Point 0 1, Point (- 1) 0, Point 0 (- 1)]"
  let ?g' = "runningGame\<lparr>nextDirection := Point 0 (- 1), direction := Point 0 (- 1),
                            snake := [Point 10 9, Point 10 10, Point 9 10]\<rparr>"
  note leftwards = changeDirection_guard [of runningGame "Point (- 1) 0" ?ds ?g']
  note downwards = changeDirection_guard [of runningGame "Point 0 1" ?ds ?g']
  have c: "conflicts runningGame (Point (- 1) 0)" "\<not> conflicts runningGame (Point 0 1)"
    "\<not> conflicts runningGame (Point 0 (- 1))" "direction runningGame = Point 1 0"
    by (simp_all add: conflicts_def example_defs)
  have kept: "changeDirection (Point (- 1) 0) runningGame = runningGame"
    using leftwards c(1) by blast
  have turned: "changeDirection (Point 0 1) runningGame = runningGame\<lparr>nextDirection := Point 0 1\<rparr>"
    using downwards c(2) by blast
  have "fold changeDirection ?ds runningGame =
     (if filter (\<lambda>d. \<not> conflicts runningGame d) ?ds = [] then runningGame
      else runningGame\<lparr>nextDirection := last (filter (\<lambda>d. \<not> conflicts runningGame d) ?ds)\<rparr>)"
    using leftwards by blast
  also have "\<dots> = runningGame\<lparr>nextDirection := Point 0 (- 1)\<rparr>"
    using c by simp
  finally have last_wins: "fold changeDirection ?ds runningGame =
      runningGame\<lparr>nextDirection := Point 0 (- 1)\<rparr>" .
  have tick: "update (fold changeDirection ?ds runningGame) = Some (Inr ?g')"
    unfolding last_wins by (rule update_turned)
  show ?thesis
    using c(1,2,4) kept turned last_wins tick by blast
qed

section \<open>Difficulty\<close>

text \<open>
  Claim C10. \<open>setDifficulty\<close> with a level other than \<open>easy\<close>, \<open>medium\<close> and \<open>hard\<close> keeps
  \<open>gameSpeed\<close>. While the game runs unpaused the call still clears the interval of
  \<open>gameLoop\<close> and arms a new one with the same period under a new handle; only \<open>gameLoop\<close>
  and the timer table of the host change. In any other state the call changes nothing.
\<close>

theorem setDifficulty_unknown_level:
  assumes "difficulty \<notin> {''easy'', ''medium'', ''hard''}"
  shows "gameSpeed (setDifficulty difficulty g) = gameSpeed g \<and>
    (isGameRunning g \<and> \<not> isPaused g \<longrightarrow>
       setDifficulty difficulty g =
         g\<lparr>gameLoop := Some (nextTimerId g),
           timers := (timers (clearInterval (gameLoop g) g))(nextTimerId g \<mapsto> gameSpeed g),
           nextTimerId := Suc (nextTimerId g)\<rparr>) \<and>
    (isGameRunning g \<and> \<not> isPaused g \<and> invariant g \<longrightarrow>
       (\<exists>h. gameLoop g = Some h \<and> timers g = [h \<mapsto> gameSpeed g]) \<and>
       timers (setDifficulty difficulty g) = [nextTimerId g \<mapsto> gameSpeed g] \<and>
       gameLoop g \<noteq> gameLoop (setDifficulty difficulty g)) \<and>
    (\<not> (isGameRunning g \<and> \<not> isPaused g) \<longrightarrow> setDifficulty difficulty g = g)"
proof -
  from assms have other: "difficulty \<noteq> ''easy''" "difficulty \<noteq> ''medium''" "difficulty \<noteq> ''hard''"
    by simp_all
  have idle: "\<not> (isGameRunning g \<and> \<not> isPaused g) \<Longrightarrow> setDifficulty difficulty g = g"
    using other by (auto simp: setDifficulty_def Let_def)
  have busy: "isGameRunning g \<and> \<not> isPaused g \<Longrightarrow>
       setDifficulty difficulty g =
         g\<lparr>gameLoop := Some (nextTimerId g),
           timers := (timers (clearInterval (gameLoop g) g))(nextTimerId g \<mapsto> gameSpeed g),
           nextTimerId := Suc (nextTimerId g)\<rparr>"
    using other
    by (cases g) (simp add: setDifficulty_def Let_def setInterval_def clearInterval_def
          split: option.splits)
  have speed: "gameSpeed (setDifficulty difficulty g) = gameSpeed g"
    using idle busy by (cases "isGameRunning g \<and> \<not> isPaused g") simp_all
  have armed: "isGameRunning g \<and> \<not> isPaused g \<and> invariant g \<Longrightarrow>
       (\<exists>h. gameLoop g = Some h \<and> timers g = [h \<mapsto> gameSpeed g]) \<and>
       timers (setDifficulty difficulty g) = [nextTimerId g \<mapsto> gameSpeed g] \<and>
       gameLoop g \<noteq> gameLoop (setDifficulty difficulty g)"
    using busy by (auto simp: invariant_def clearInterval_def)
  show ?thesis using idle busy speed armed by blast
qed

theorem setDifficulty_unknown_level_witness:
  "''expert'' \<notin> {''easy'', ''medium'', ''hard''} \<and>
   isGameRunning runningGame \<and> \<not> isPaused runningGame \<and> invariant runningGame \<and>
   setDifficulty ''expert'' runningGame =
     runningGame\<lparr>gameLoop := Some 1, timers := [1 \<mapsto> 150], nextTimerId := 2\<rparr> \<and>
   gameSpeed (setDifficulty ''expert'' runningGame) = 150 \<and>
   \<not> (isGameRunning freshGame \<and> \<not> isPaused freshGame) \<and>
   setDifficulty ''expert'' freshGame = freshGame"
proof -
  have a: "''expert'' \<notin> {''easy'', ''medium'', ''hard''}" by simp
  have b: "isGameRunning runningGame \<and> \<not> isPaused runningGame \<and> invariant runningGame"
    by (simp add: example_defs invariant_def)
  have c: "\<not> (isGameRunning freshGame \<and> \<not> isPaused freshGame)"
    by (simp add: example_defs)
  show ?thesis
    using setDifficulty_unknown_level [OF a, of runningGame]
      setDifficulty_unknown_level [OF a, of freshGame] b c
    by (simp add: example_defs clearInterval_def)
qed

section \<open>The example states are reachable\<close>

lemma drawAt_quarter:
  "tileCount g = 20 \<Longrightarrow> randomSource g = sconst (1 / 4) \<Longrightarrow> drawAt g k = Point 5 5"
  by (simp add: drawAt_def)

lemma generateFood_quarter:
  assumes "tileCount g = 20" and "randomSource g = sconst (1 / 4)" and "Point 5 5 \<notin> set (snake g)"
  shows "generateFood g = Some (g\<lparr>food := Point 5 5\<rparr>)"
proof -
  have d: "drawAt g 0 = Point 5 5" using assms(1,2) by (rule drawAt_quarter)
  have "generateFood g =
      Some (g\<lparr>randomSource := sdrop (2 * 0) (stl (stl (randomSource g))), food := drawAt g 0\<rparr>)"
    by (rule generateFood_least) (simp_all add: d assms(3))
  also have "\<dots> = Some (g\<lparr>food := Point 5 5\<rparr>)"
    using d assms(2) by (cases g) simp
  finally show ?thesis .
qed

lemma parseInt_null: "parseInt z (ascii ''null'') = NaN"
  by (simp add: parseInt_def ascii_def isWhiteSpace_def isRadixDigit_def digitValue_def)

lemma construct_fresh: "constructor 400 plainBrowser (sconst (1 / 4)) = Some (Inr freshGame)"
  by (simp add: constructor_def plainBrowser_def resetGame_def generateFood_quarter gridSize_def
        getItemText_def parseInt_null orZero_def freshGame_def)

lemma start_fresh: "run Start freshGame = Some runningGame"
  by (simp add: startGame_def resetGame_def generateFood_quarter setInterval_def
        freshGame_def runningGame_def)

lemma reachable_fresh: "reachable freshGame"
  using construct_fresh by (rule constructed)

lemma reachable_running: "reachable runningGame"
  using reachable_fresh start_fresh by (rule commanded)

lemma marched_0: "marched 0 = runningGame"
  by (simp add: marched_def runningGame_def freshGame_def)

lemma candidateHead_marched: "candidateHead (marched k) = Point (11 + int k) 10"
  by (simp add: candidateHead_def example_defs)

lemma update_marched:
  assumes "k < 9"
  shows "update (marched k) = Some (Inr (marched (Suc k)))"
proof -
  have "update (marched k) =
      Some (Inr ((marched k)\<lparr>direction := nextDirection (marched k),
                   snake := candidateHead (marched k) # butlast (snake (marched k))\<rparr>))"
    using assms
    by (intro update_plain) (simp_all add: candidateHead_marched, simp_all add: example_defs inBounds_def)
  also have "\<dots> = Some (Inr (marched (Suc k)))"
    by (simp add: candidateHead_marched) (simp add: example_defs add.commute)
  finally show ?thesis .
qed

lemma reachable_marched: "k \<le> 9 \<Longrightarrow> reachable (marched k)"
proof (induction k)
  case 0
  show ?case using reachable_running by (simp add: marched_0)
next
  case (Suc k)
  then have "reachable (marched k)" and "k < 9" by simp_all
  moreover have "timers (marched k) \<noteq> Map.empty"
    by (simp add: example_defs)
  ultimately show ?case
    using update_marched by (blast intro: ticked)
qed

lemma update_wall:
  "update (marched 9) =
     Some (Inr ((marched 9)\<lparr>isGameRunning := False, timers := Map.empty\<rparr>))"
proof -
  have "update (marched 9) = Some (gameOver ((marched 9)\<lparr>direction := nextDirection (marched 9)\<rparr>))"
    by (rule update_collide) (simp_all add: candidateHead_marched, simp_all add: example_defs inBounds_def)
  also have "\<dots> = Some (Inr ((marched 9)\<lparr>isGameRunning := False, timers := Map.empty\<rparr>))"
    by (simp add: example_defs gameOver_def stopGame_def clearInterval_def exceeds_def)
  finally show ?thesis .
qed

lemma update_over: "update (marched 9) = Some (Inr overGame)"
  by (simp add: update_wall overGame_def)

lemma start_over:
  "startGame overGame =
     Some (runningGame\<lparr>gameLoop := Some 1, timers := [1 \<mapsto> 150], nextTimerId := 2\<rparr>)"
  by (simp add: startGame_def resetGame_def generateFood_quarter setInterval_def
        overGame_def example_defs)

lemma generateFood_first:
  assumes "drawAt g 0 \<notin> set (snake g)"
  shows "generateFood g =
     Some (g\<lparr>randomSource := stl (stl (randomSource g)), food := drawAt g 0\<rparr>)"
  using assms by (subst generateFood_unfold) simp

lemma numberToString_10: "numberToString 10 = ascii ''10''"
  by (simp add: numberToString_def digits.simps digitChar_def ascii_def)

lemma numberToString_120: "numberToString 120 = ascii ''120''"
  by (simp add: numberToString_def digits.simps digitChar_def ascii_def)

lemma construct_quota: "constructor 400 quotaBrowser fedSource = Some (Inr quotaFresh)"
  by (simp add: constructor_def quotaBrowser_def fedSource_def resetGame_def generateFood_first
        drawAt_def gridSize_def getItemText_def parseInt_null orZero_def freshGame_def
        quotaFresh_def)

lemma start_quota: "run Start quotaFresh = Some quotaRunning"
  by (simp add: startGame_def resetGame_def generateFood_first drawAt_def setInterval_def
        freshGame_def runningGame_def quotaFresh_def quotaRunning_def)

lemma reachable_quotaRunning: "reachable quotaRunning"
  using constructed [OF construct_quota] start_quota by (rule commanded)

lemma candidateHead_quotaRunning: "candidateHead quotaRunning = Point 11 10"
  by (simp add: candidateHead_def quotaRunning_def example_defs)

lemma update_quotaRunning: "update quotaRunning = Some (Inr (quotaFed 0))"
proof -
  let ?g2 = "quotaRunning\<lparr>direction := nextDirection quotaRunning,
               snake := candidateHead quotaRunning # snake quotaRunning,
               score := score quotaRunning + 10\<rparr>"
  have "update quotaRunning = map_option Inr (generateFood ?g2)"
    by (rule update_eat)
       (simp_all add: candidateHead_quotaRunning, simp_all add: quotaRunning_def example_defs inBounds_def)
  also have "generateFood ?g2 = Some (quotaFed 0)"
    by (rule generateFood_quarter [THEN trans])
       (simp_all add: candidateHead_quotaRunning, simp_all add: quotaRunning_def quotaFed_def example_defs)
  finally show ?thesis by simp
qed

lemma candidateHead_quotaFed: "candidateHead (quotaFed k) = Point (12 + int k) 10"
  by (simp add: candidateHead_def quotaFed_def example_defs)

lemma update_quotaFed:
  assumes "k < 8"
  shows "update (quotaFed k) = Some (Inr (quotaFed (Suc k)))"
proof -
  have "update (quotaFed k) =
      Some (Inr ((quotaFed k)\<lparr>direction := nextDirection (quotaFed k),
                   snake := candidateHead (quotaFed k) # butlast (snake (quotaFed k))\<rparr>))"
    using assms
    by (intro update_plain)
       (simp_all add: candidateHead_quotaFed, simp_all add: quotaFed_def example_defs inBounds_def)
  also have "\<dots> = Some (Inr (quotaFed (Suc k)))"
    by (simp add: candidateHead_quotaFed) (simp add: quotaFed_def example_defs add.commute)
  finally show ?thesis .
qed

lemma reachable_quotaFed: "k \<le> 8 \<Longrightarrow> reachable (quotaFed k)"
proof (induction k)
  case 0
  have "timers quotaRunning \<noteq> Map.empty" by (simp add: quotaRunning_def example_defs)
  with reachable_quotaRunning show ?case using update_quotaRunning by (rule ticked)
next
  case (Suc k)
  then have "reachable (quotaFed k)" and "k < 8" by simp_all
  moreover have "timers (quotaFed k) \<noteq> Map.empty"
    by (simp add: quotaFed_def example_defs)
  ultimately show ?case
    using update_quotaFed by (blast intro: ticked)
qed

lemma update_quotaWall: "update (quotaFed 8) = Some (Inl (QuotaExceededError, quotaOver))"
proof -
  have "update (quotaFed 8) =
      Some (gameOver ((quotaFed 8)\<lparr>direction := nextDirection (quotaFed 8)\<rparr>))"
    by (rule update_collide)
       (simp_all add: candidateHead_quotaFed, simp_all add: quotaFed_def example_defs inBounds_def)
  also have "\<dots> = Some (Inl (QuotaExceededError, quotaOver))"
    by (simp add: quotaOver_def quotaFed_def example_defs gameOver_def stopGame_def
          clearInterval_def exceeds_def setItem_def numberToString_10)
  finally show ?thesis .
qed

lemma update_deniedWall: "update deniedGame = Some (Inl (QuotaExceededError, deniedOver))"
proof -
  have c: "candidateHead deniedGame = Point 20 10"
    by (simp add: candidateHead_def deniedGame_def recordGame_def example_defs)
  have "update deniedGame = Some (gameOver (deniedGame\<lparr>direction := nextDirection deniedGame\<rparr>))"
    by (rule update_collide)
       (simp_all add: c, simp_all add: deniedGame_def recordGame_def example_defs inBounds_def)
  also have "\<dots> = Some (Inl (QuotaExceededError, deniedOver))"
    by (simp add: deniedOver_def deniedGame_def recordGame_def example_defs gameOver_def
          stopGame_def clearInterval_def exceeds_def setItem_def numberToString_120)
  finally show ?thesis .
qed

section \<open>What a tick does\<close>

lemma update_cases [consumes 1, case_names collide plain eat]:
  assumes "update g = Some (Inr g')"
  obtains
    (collide) "snake g \<noteq> []"
      "\<not> inBounds g (candidateHead g) \<or> candidateHead g \<in> set (snake g)"
      "gameOver (g\<lparr>direction := nextDirection g\<rparr>) = Inr g'"
      "g' = stateLeft (gameOver (g\<lparr>direction := nextDirection g\<rparr>))"
  | (plain) "snake g \<noteq> []" "inBounds g (candidateHead g)"
      "candidateHead g \<notin> set (snake g)" "candidateHead g \<noteq> food g"
      "g' = g\<lparr>direction := nextDirection g, snake := candidateHead g # butlast (snake g)\<rparr>"
  | (eat) f r where "snake g \<noteq> []" "inBounds g (candidateHead g)"
      "candidateHead g \<notin> set (snake g)" "candidateHead g = food g"
      "g' = g\<lparr>direction := nextDirection g, snake := candidateHead g # snake g,
              score := score g + 10, food := f, randomSource := r\<rparr>"
      "f \<notin> set (candidateHead g # snake g)"
proof -
  from assms have ne: "snake g \<noteq> []" by (auto simp: update_empty)
  consider
    (a) "\<not> inBounds g (candidateHead g) \<or> candidateHead g \<in> set (snake g)"
  | (b) "inBounds g (candidateHead g)" "candidateHead g \<notin> set (snake g)"
      "candidateHead g \<noteq> food g"
  | (c) "inBounds g (candidateHead g)" "candidateHead g \<notin> set (snake g)"
      "candidateHead g = food g"
    by blast
  then show thesis
  proof cases
    case a
    from update_collide [OF ne a] assms
    have r: "gameOver (g\<lparr>direction := nextDirection g\<rparr>) = Inr g'" by simp
    then have "g' = stateLeft (gameOver (g\<lparr>direction := nextDirection g\<rparr>))" by simp
    with ne a r show thesis by (rule collide)
  next
    case b
    from update_plain [OF ne b] assms
    have "g' = g\<lparr>direction := nextDirection g, snake := candidateHead g # butlast (snake g)\<rparr>"
      by simp
    with ne b show thesis by (rule plain)
  next
    case c
    let ?g2 = "g\<lparr>direction := nextDirection g, snake := candidateHead g # snake g,
                 score := score g + 10\<rparr>"
    from update_eat [OF ne c] assms have "generateFood ?g2 = Some g'" by simp
    then obtain f r where g': "g' = ?g2\<lparr>food := f, randomSource := r\<rparr>"
      and f: "f \<notin> set (snake ?g2)"
      by (rule generateFood_frameE)
    from f have "f \<notin> set (candidateHead g # snake g)" by simp
    with ne c g' show thesis by (rule eat)
  qed
qed

lemma timers_cleared:
  assumes "invariant g"
  shows "timers (clearInterval (gameLoop g) g) = Map.empty"
  using assms by (auto simp: invariant_def clearInterval_def split: option.splits if_splits)

text \<open>
  Claim C2. When the candidate head lies outside the board (a coordinate below 0 or not
  below \<open>tileCount\<close>) or on a cell of the snake, the tick ends in \<open>gameOver\<close>. It returns,
  unless the score exceeds the high score and the host refuses the write of the new high
  score: then the tick throws the error of the host. In the state that the tick leaves,
  returned or thrown, the game is neither running nor paused; snake, score and food are
  what they were before the tick, and the interval held in \<open>gameLoop\<close> is cleared. In a
  reachable state no armed interval is left, so no further tick comes.
\<close>

theorem update_collision_ends_game:
  assumes "snake g \<noteq> []"
    and "\<not> inBounds g (candidateHead g) \<or> candidateHead g \<in> set (snake g)"
  shows "\<exists>r. update g = Some r \<and>
           \<not> isGameRunning (stateLeft r) \<and> \<not> isPaused (stateLeft r) \<and>
           snake (stateLeft r) = snake g \<and> score (stateLeft r) = score g \<and>
           food (stateLeft r) = food g \<and>
           timers (stateLeft r) = timers (clearInterval (gameLoop g) g) \<and>
           (reachable g \<longrightarrow> timers (stateLeft r) = Map.empty) \<and>
           ((\<exists>g'. r = Inr g') \<longleftrightarrow>
              (exceeds (score g) (highScore g) \<longrightarrow>
                 storageRefuses g highScoreKey (numberToString (score g)) = None)) \<and>
           (\<forall>e g'. r = Inl (e, g') \<longrightarrow>
              exceeds (score g) (highScore g) \<and>
              storageRefuses g highScoreKey (numberToString (score g)) = Some e)"
proof -
  let ?g1 = "g\<lparr>direction := nextDirection g\<rparr>"
  let ?r = "gameOver ?g1"
  have u: "update g = Some ?r" using assms by (rule update_collide)
  have t: "timers (stateLeft ?r) = timers (clearInterval (gameLoop g) g)"
    by (simp add: gameOver_fields clearInterval_def split: option.splits)
  have "reachable g \<Longrightarrow> timers (stateLeft ?r) = Map.empty"
    unfolding t by (rule timers_cleared) (rule reachable_invariant)
  moreover have "(\<exists>g'. ?r = Inr g') \<longleftrightarrow>
      (exceeds (score g) (highScore g) \<longrightarrow>
         storageRefuses g highScoreKey (numberToString (score g)) = None)"
    by (cases ?g1 rule: gameOver_cases) simp_all
  moreover have "\<forall>e g'. ?r = Inl (e, g') \<longrightarrow>
      exceeds (score g) (highScore g) \<and>
      storageRefuses g highScoreKey (numberToString (score g)) = Some e"
    by (cases ?g1 rule: gameOver_cases) simp_all
  ultimately show ?thesis using u t by (simp add: gameOver_fields)
qed

theorem update_collision_ends_game_witness:
  "snake (marched 9) \<noteq> [] \<and>
   candidateHead (marched 9) = Point 20 10 \<and>
   \<not> inBounds (marched 9) (candidateHead (marched 9)) \<and>
   reachable (marched 9) \<and>
   (\<exists>g'. update (marched 9) = Some (Inr g') \<and> \<not> isGameRunning g' \<and>
      snake g' = [Point 19 10, Point 18 10, Point 17 10] \<and> score g' = 0 \<and>
      food g' = Point 5 5 \<and> timers g' = Map.empty) \<and>
   snake coiledGame \<noteq> [] \<and>
   candidateHead coiledGame = Point 6 5 \<and>
   inBounds coiledGame (candidateHead coiledGame) \<and>
   candidateHead coiledGame \<in> set (snake coiledGame) \<and>
   (\<exists>g'. update coiledGame = Some (Inr g') \<and> \<not> isGameRunning g' \<and>
      snake g' = [Point 5 5, Point 5 6, Point 6 6, Point 6 5, Point 7 5] \<and>
      timers g' = Map.empty) \<and>
   snake (quotaFed 8) \<noteq> [] \<and>
   candidateHead (quotaFed 8) = Point 20 10 \<and>
   \<not> inBounds (quotaFed 8) (candidateHead (quotaFed 8)) \<and>
   reachable (quotaFed 8) \<and>
   score (quotaFed 8) = 10 \<and> highScore (quotaFed 8) = Finite 0 \<and>
   exceeds (score (quotaFed 8)) (highScore (quotaFed 8)) \<and>
   storageRefuses (quotaFed 8) highScoreKey (numberToString (score (quotaFed 8))) =
     Some QuotaExceededError \<and>
   update (quotaFed 8) = Some (Inl (QuotaExceededError, quotaOver)) \<and>
   \<not> isGameRunning quotaOver \<and> \<not> isPaused quotaOver \<and>
   snake quotaOver = [Point 19 10, Point 18 10, Point 17 10, Point 16 10] \<and>
   score quotaOver = 10 \<and> food quotaOver = Point 5 5 \<and> timers quotaOver = Map.empty"
proof -
  have a: "snake (marched 9) \<noteq> []" by (simp add: example_defs)
  have b: "candidateHead (marched 9) = Point 20 10" by (simp add: candidateHead_marched)
  have c: "\<not> inBounds (marched 9) (candidateHead (marched 9))"
    unfolding b by (simp add: example_defs inBounds_def)
  have d: "reachable (marched 9)" by (rule reachable_marched) simp
  have k: "\<not> exceeds (score (marched 9)) (highScore (marched 9))"
    by (simp add: example_defs exceeds_def)
  from update_collision_ends_game [OF a disjI1 [OF c]] d k
  obtain g' where "update (marched 9) = Some (Inr g')" "\<not> isGameRunning g'"
    "snake g' = snake (marched 9)" "score g' = score (marched 9)" "food g' = food (marched 9)"
    "timers g' = Map.empty" by fastforce
  then have wall: "\<exists>g'. update (marched 9) = Some (Inr g') \<and> \<not> isGameRunning g' \<and>
      snake g' = [Point 19 10, Point 18 10, Point 17 10] \<and> score g' = 0 \<and>
      food g' = Point 5 5 \<and> timers g' = Map.empty"
    by (simp add: example_defs)
  have e: "snake coiledGame \<noteq> []" "candidateHead coiledGame = Point 6 5"
    by (simp_all add: candidateHead_def coiledGame_def example_defs)
  have f: "inBounds coiledGame (candidateHead coiledGame)"
    "candidateHead coiledGame \<in> set (snake coiledGame)"
    unfolding e(2) by (simp_all add: inBounds_def coiledGame_def example_defs)
  have l: "\<not> exceeds (score coiledGame) (highScore coiledGame)"
    by (simp add: coiledGame_def example_defs exceeds_def)
  from update_collision_ends_game [OF e(1) disjI2 [OF f(2)]] l
  obtain h where "update coiledGame = Some (Inr h)" "\<not> isGameRunning h"
    "snake h = snake coiledGame" "timers h = timers (clearInterval (gameLoop coiledGame) coiledGame)"
    by fastforce
  then have coil: "\<exists>g'. update coiledGame = Some (Inr g') \<and> \<not> isGameRunning g' \<and>
      snake g' = [Point 5 5, Point 5 6, Point 6 6, Point 6 5, Point 7 5] \<and>
      timers g' = Map.empty"
    by (simp add: clearInterval_def coiledGame_def example_defs)
  have m: "snake (quotaFed 8) \<noteq> []" by (simp add: quotaFed_def)
  have n: "candidateHead (quotaFed 8) = Point 20 10" by (simp add: candidateHead_quotaFed)
  have p: "\<not> inBounds (quotaFed 8) (candidateHead (quotaFed 8))"
    unfolding n by (simp add: quotaFed_def example_defs inBounds_def)
  have q: "reachable (quotaFed 8)" by (rule reachable_quotaFed) simp
  have s: "score (quotaFed 8) = 10" "highScore (quotaFed 8) = Finite 0"
    by (simp_all add: quotaFed_def example_defs)
  from update_collision_ends_game [OF m disjI1 [OF p]] q
  obtain r where r: "update (quotaFed 8) = Some r" "\<not> isGameRunning (stateLeft r)"
    "\<not> isPaused (stateLeft r)" "snake (stateLeft r) = snake (quotaFed 8)"
    "score (stateLeft r) = score (quotaFed 8)" "food (stateLeft r) = food (quotaFed 8)"
    "timers (stateLeft r) = Map.empty"
    "\<forall>e g'. r = Inl (e, g') \<longrightarrow> exceeds (score (quotaFed 8)) (highScore (quotaFed 8)) \<and>
       storageRefuses (quotaFed 8) highScoreKey (numberToString (score (quotaFed 8))) = Some e"
    by blast
  from r(1) have r': "r = Inl (QuotaExceededError, quotaOver)" by (simp add: update_quotaWall)
  from r(8) r' have x: "exceeds (score (quotaFed 8)) (highScore (quotaFed 8))"
    "storageRefuses (quotaFed 8) highScoreKey (numberToString (score (quotaFed 8))) =
       Some QuotaExceededError"
    by simp_all
  from r(2-7) have left: "\<not> isGameRunning quotaOver" "\<not> isPaused quotaOver"
    "snake quotaOver = [Point 19 10, Point 18 10, Point 17 10, Point 16 10]"
    "score quotaOver = 10" "food quotaOver = Point 5 5" "timers quotaOver = Map.empty"
    unfolding r' by (simp_all add: quotaFed_def example_defs)
  have thrown: "update (quotaFed 8) = Some (Inl (QuotaExceededError, quotaOver))"
    using r(1) r' by simp
  show ?thesis
    using a b c d wall e f coil m n p q s x thrown left by (intro conjI) assumption+
qed




section \<open>Food stays off the snake\<close>

text \<open>
  Claim C3. In every reachable state the food cell is not a cell of the snake.
  \<open>generateFood\<close> returns only a cell that one of its rounds drew and that is off the snake,
  and leaves the snake alone. With random numbers in the unit interval and a positive
  board side every round draws a cell with both coordinates from 0 up to, not including,
  \<open>tileCount\<close>. The call returns as soon as some round draws a free cell, and it runs
  forever exactly when no round does.
\<close>

theorem food_never_on_snake:
  "(reachable g \<longrightarrow> food g \<notin> set (snake g)) \<and>
   (generateFood g = Some g' \<longrightarrow>
      food g' \<notin> set (snake g') \<and> snake g' = snake g \<and> (\<exists>k. food g' = drawAt g k)) \<and>
   (unitDraws g \<and> 0 < tileCount g \<longrightarrow> inBounds g (drawAt g k)) \<and>
   (drawAt g k \<notin> set (snake g) \<longrightarrow> (\<exists>g'. generateFood g = Some g')) \<and>
   (generateFood g = None \<longleftrightarrow> (\<forall>j. drawAt g j \<in> set (snake g)))"
proof (intro conjI impI)
  assume "reachable g"
  then have "invariant g" by (rule reachable_invariant)
  then show "food g \<notin> set (snake g)" by (simp add: invariant_def)
next
  show "generateFood g = None \<longleftrightarrow> (\<forall>j. drawAt g j \<in> set (snake g))"
  proof
    assume none: "generateFood g = None"
    show "\<forall>j. drawAt g j \<in> set (snake g)"
    proof (rule ccontr)
      assume "\<not> (\<forall>j. drawAt g j \<in> set (snake g))"
      then obtain j where "drawAt g j \<notin> set (snake g)" by blast
      from generateFood_returns [OF this] none show False by simp
    qed
  next
    assume busy: "\<forall>j. drawAt g j \<in> set (snake g)"
    show "generateFood g = None"
    proof (rule ccontr)
      assume "generateFood g \<noteq> None"
      then obtain h where h: "generateFood g = Some h" by blast
      from generateFood_drawn [OF h] obtain j where "food h = drawAt g j" ..
      moreover from generateFood_frame [OF h] have "food h \<notin> set (snake g)" ..
      ultimately show False using busy by simp
    qed
  qed
next
  assume gf: "generateFood g = Some g'"
  from generateFood_frame [OF gf]
  have fr: "g' = g\<lparr>food := food g', randomSource := randomSource g'\<rparr>"
    and off: "food g' \<notin> set (snake g)" by blast+
  show sn: "snake g' = snake g" by (subst fr) simp
  show "food g' \<notin> set (snake g')" using off by (simp add: sn)
  show "\<exists>k. food g' = drawAt g k" using gf by (rule generateFood_drawn)
next
  assume "unitDraws g \<and> 0 < tileCount g"
  then show "inBounds g (drawAt g k)" by (simp add: drawAt_inBounds)
next
  assume "drawAt g k \<notin> set (snake g)"
  then show "\<exists>g'. generateFood g = Some g'" by (rule generateFood_returns)
qed

lemma unitDraws_fresh: "unitDraws freshGame"
  by (simp add: unitDraws_def freshGame_def)

theorem food_never_on_snake_witness:
  "reachable (marched 9) \<and> food (marched 9) \<notin> set (snake (marched 9)) \<and>
   generateFood freshGame = Some freshGame \<and>
   food freshGame = drawAt freshGame 0 \<and>
   unitDraws freshGame \<and> 0 < tileCount freshGame \<and>
   inBounds freshGame (drawAt freshGame 0) \<and>
   drawAt freshGame 0 \<notin> set (snake freshGame)"
proof -
  have a: "reachable (marched 9)" by (rule reachable_marched) simp
  have b: "generateFood freshGame = Some freshGame"
    by (simp add: generateFood_quarter freshGame_def)
  have c: "unitDraws freshGame \<and> 0 < tileCount freshGame"
    by (simp add: unitDraws_fresh) (simp add: freshGame_def)
  have d: "drawAt freshGame 0 \<notin> set (snake freshGame)" "food freshGame = drawAt freshGame 0"
    by (simp_all add: drawAt_def freshGame_def)
  show ?thesis
    using food_never_on_snake [of "marched 9"] food_never_on_snake [of freshGame freshGame 0]
      a b c d by blast
qed

section \<open>Running and paused\<close>

lemma stopGame_flags [simp]: "isGameRunning (stopGame g) = False" "isPaused (stopGame g) = False"
  by (simp_all add: stopGame_def clearInterval_def split: option.splits)

lemma pauseGame_flags:
  "isGameRunning (pauseGame g) = isGameRunning g"
  "isPaused (pauseGame g) = (isGameRunning g \<or> isPaused g)"
  by (auto simp: pauseGame_def clearInterval_def split: option.splits)

lemma resumeGame_flags:
  "isGameRunning (resumeGame g) = isGameRunning g"
  "isPaused (resumeGame g) = (isPaused g \<and> \<not> isGameRunning g)"
  by (auto simp: resumeGame_def setInterval_def)

lemma setDifficulty_flags:
  "isGameRunning (setDifficulty d g) = isGameRunning g"
  "isPaused (setDifficulty d g) = isPaused g"
  by (simp_all add: setDifficulty_def setInterval_def clearInterval_def Let_def
        split: option.splits)

lemma startGame_flags:
  assumes "startGame g = Some g'"
  shows "isGameRunning g'" and "isPaused g' = (isGameRunning g \<and> isPaused g)"
proof -
  have "isGameRunning g' \<and> isPaused g' = (isGameRunning g \<and> isPaused g)"
  proof (cases "isGameRunning g")
    case True
    with assms show ?thesis by (simp add: startGame_def)
  next
    case False
    from startGame_result [OF False assms] obtain f r where
      "g' = g\<lparr>snake := [Point 10 10, Point 9 10, Point 8 10], food := f,
            direction := Point 1 0, nextDirection := Point 1 0, score := 0,
            gameLoop := Some (nextTimerId g), isGameRunning := True, isPaused := False,
            timers := (timers g)(nextTimerId g \<mapsto> gameSpeed g),
            nextTimerId := Suc (nextTimerId g),
            randomSource := r\<rparr>" .
    with False show ?thesis by simp
  qed
  then show "isGameRunning g'" and "isPaused g' = (isGameRunning g \<and> isPaused g)"
    by simp_all
qed

lemma run_flags:
  assumes "run c g = Some g'"
  shows "isGameRunning g' = (isGameRunning g \<or> c = Start \<or> c = Restart)"
    and "isPaused g' =
      (case c of Start \<Rightarrow> isGameRunning g \<and> isPaused g
       | Pause \<Rightarrow> isGameRunning g \<or> isPaused g
       | Resume \<Rightarrow> isPaused g \<and> \<not> isGameRunning g
       | Restart \<Rightarrow> False
       | _ \<Rightarrow> isPaused g)"
proof -
  have "isGameRunning g' = (isGameRunning g \<or> c = Start \<or> c = Restart) \<and>
    isPaused g' =
      (case c of Start \<Rightarrow> isGameRunning g \<and> isPaused g
       | Pause \<Rightarrow> isGameRunning g \<or> isPaused g
       | Resume \<Rightarrow> isPaused g \<and> \<not> isGameRunning g
       | Restart \<Rightarrow> False
       | _ \<Rightarrow> isPaused g)"
  proof (cases c)
    case Start
    with assms have "startGame g = Some g'" by simp
    from startGame_flags [OF this] Start show ?thesis by simp
  next
    case Pause
    with assms show ?thesis by (auto simp: pauseGame_flags)
  next
    case Resume
    with assms show ?thesis by (auto simp: resumeGame_flags)
  next
    case Restart
    with assms have "startGame (stopGame g) = Some g'" by (simp add: restartGame_def)
    from startGame_flags [OF this] Restart show ?thesis by simp
  next
    case (SetDifficulty d)
    with assms show ?thesis by (auto simp: setDifficulty_flags)
  next
    case (SetSoundEnabled b)
    with assms show ?thesis by (auto simp: setSoundEnabled_def)
  next
    case (ChangeDirection d)
    with assms show ?thesis by (auto simp: changeDirection_def split: if_splits)
  qed
  then show "isGameRunning g' = (isGameRunning g \<or> c = Start \<or> c = Restart)"
    and "isPaused g' =
      (case c of Start \<Rightarrow> isGameRunning g \<and> isPaused g
       | Pause \<Rightarrow> isGameRunning g \<or> isPaused g
       | Resume \<Rightarrow> isPaused g \<and> \<not> isGameRunning g
       | Restart \<Rightarrow> False
       | _ \<Rightarrow> isPaused g)"
    by simp_all
qed

lemma update_keeps_flags:
  assumes "update g = Some (Inr g')"
  shows "(\<not> isGameRunning g' \<and> \<not> isPaused g') \<or>
         (isGameRunning g' = isGameRunning g \<and> isPaused g' = isPaused g)"
  using assms by (cases rule: update_cases) (simp_all add: gameOver_fields)

lemma update_thrown_flags:
  assumes "update g = Some (Inl (e, g'))"
  shows "(\<not> isGameRunning g' \<and> \<not> isPaused g') \<or>
         (isGameRunning g' = isGameRunning g \<and> isPaused g' = isPaused g)"
proof (cases "snake g = []")
  case True
  with assms show ?thesis by (auto simp: update_empty)
next
  case False
  from update_throws [OF assms False]
  have "g' = stateLeft (gameOver (g\<lparr>direction := nextDirection g\<rparr>))" by simp
  then show ?thesis by (simp add: gameOver_fields)
qed

lemma startGame_returns:
  assumes "drawAt g k \<notin> {Point 10 10, Point 9 10, Point 8 10}"
  shows "\<exists>g'. startGame g = Some g'"
proof -
  let ?g0 = "g\<lparr>snake := [Point 10 10, Point 9 10, Point 8 10], direction := Point 1 0,
               nextDirection := Point 1 0, score := 0\<rparr>"
  have "drawAt ?g0 k \<notin> set (snake ?g0)" using assms by (simp add: drawAt_def)
  from generateFood_returns [OF this] obtain g1 where "resetGame g = Some g1"
    by (auto simp: resetGame_def)
  then show ?thesis by (simp add: startGame_def Let_def split: prod.splits)
qed

lemma drawAt_stopGame [simp]: "drawAt (stopGame g) k = drawAt g k"
  by (simp add: drawAt_def stopGame_def clearInterval_def split: option.splits)

text \<open>
  Claim C7. No reachable state is paused without running. The constructor returns a state
  that is neither; every command and every tick keeps the property, also a tick that
  throws; \<open>pauseGame\<close> sets \<open>isPaused\<close> only in a running game; \<open>stopGame\<close> clears both flags;
  no command stops a running game, and a tick that stops it leaves it unpaused.
\<close>

theorem paused_implies_running:
  "(reachable g \<longrightarrow> \<not> (isPaused g \<and> \<not> isGameRunning g)) \<and>
   (constructor w st rnd = Some (Inr g) \<longrightarrow> \<not> isPaused g \<and> \<not> isGameRunning g) \<and>
   ((isPaused g \<longrightarrow> isGameRunning g) \<and> run c g = Some g' \<longrightarrow>
      (isPaused g' \<longrightarrow> isGameRunning g')) \<and>
   ((isPaused g \<longrightarrow> isGameRunning g) \<and> update g = Some (Inr g') \<longrightarrow>
      (isPaused g' \<longrightarrow> isGameRunning g')) \<and>
   (isPaused (pauseGame g) \<and> \<not> isPaused g \<longrightarrow> isGameRunning g) \<and>
   \<not> isGameRunning (stopGame g) \<and> \<not> isPaused (stopGame g) \<and>
   (isGameRunning g \<and> run c g = Some g' \<longrightarrow> isGameRunning g') \<and>
   (isGameRunning g \<and> update g = Some (Inr g') \<and> \<not> isGameRunning g' \<longrightarrow> \<not> isPaused g') \<and>
   ((isPaused g \<longrightarrow> isGameRunning g) \<and> update g = Some (Inl (e, g')) \<longrightarrow>
      (isPaused g' \<longrightarrow> isGameRunning g')) \<and>
   (isGameRunning g \<and> update g = Some (Inl (e, g')) \<and> \<not> isGameRunning g' \<longrightarrow>
      \<not> isPaused g')"
proof (intro conjI impI)
  assume "reachable g"
  then have "invariant g" by (rule reachable_invariant)
  then show "\<not> (isPaused g \<and> \<not> isGameRunning g)" by (simp add: invariant_def)
next
  assume "constructor w st rnd = Some (Inr g)"
  then obtain g0 where "resetGame g0 = Some g" "\<not> isGameRunning g0" "\<not> isPaused g0"
    by (auto simp: constructor_def split: option.splits)
  then show "\<not> isPaused g" and "\<not> isGameRunning g"
    by (auto elim!: resetGame_result)
next
  assume a: "(isPaused g \<longrightarrow> isGameRunning g) \<and> run c g = Some g'" and p: "isPaused g'"
  then have r: "run c g = Some g'" by simp
  from p a show "isGameRunning g'"
    unfolding run_flags [OF r] by (cases c) auto
next
  assume a: "(isPaused g \<longrightarrow> isGameRunning g) \<and> update g = Some (Inr g')" and p: "isPaused g'"
  then have "update g = Some (Inr g')" by simp
  from update_keeps_flags [OF this] a p show "isGameRunning g'" by auto
next
  assume "isPaused (pauseGame g) \<and> \<not> isPaused g"
  then show "isGameRunning g" by (auto simp: pauseGame_flags)
next
  show "\<not> isGameRunning (stopGame g)" and "\<not> isPaused (stopGame g)" by simp_all
next
  assume a: "isGameRunning g \<and> run c g = Some g'"
  then have "run c g = Some g'" by simp
  from run_flags(1) [OF this] a show "isGameRunning g'" by simp
next
  assume a: "isGameRunning g \<and> update g = Some (Inr g') \<and> \<not> isGameRunning g'"
  then have "update g = Some (Inr g')" by simp
  from update_keeps_flags [OF this] a show "\<not> isPaused g'" by auto
next
  assume a: "(isPaused g \<longrightarrow> isGameRunning g) \<and> update g = Some (Inl (e, g'))"
    and p: "isPaused g'"
  then have "update g = Some (Inl (e, g'))" by simp
  from update_thrown_flags [OF this] a p show "isGameRunning g'" by auto
next
  assume a: "isGameRunning g \<and> update g = Some (Inl (e, g')) \<and> \<not> isGameRunning g'"
  then have "update g = Some (Inl (e, g'))" by simp
  from update_thrown_flags [OF this] a show "\<not> isPaused g'" by auto
qed

theorem paused_implies_running_witness:
  "reachable (pauseGame runningGame) \<and>
   isPaused (pauseGame runningGame) \<and> isGameRunning (pauseGame runningGame) \<and>
   \<not> isPaused runningGame \<and> isGameRunning runningGame \<and>
   run Pause runningGame = Some (pauseGame runningGame) \<and>
   constructor 400 plainBrowser (sconst (1 / 4)) = Some (Inr freshGame) \<and>
   \<not> isPaused freshGame \<and> \<not> isGameRunning freshGame \<and>
   isGameRunning (marched 9) \<and> update (marched 9) = Some (Inr overGame) \<and>
   \<not> isGameRunning overGame \<and> \<not> isPaused overGame \<and>
   isGameRunning (quotaFed 8) \<and>
   update (quotaFed 8) = Some (Inl (QuotaExceededError, quotaOver)) \<and>
   \<not> isGameRunning quotaOver \<and> \<not> isPaused quotaOver"
proof -
  have a: "run Pause runningGame = Some (pauseGame runningGame)" by simp
  have b: "reachable (pauseGame runningGame)"
    using reachable_running a by (rule commanded)
  have c: "\<not> isPaused runningGame" "isGameRunning runningGame" "isGameRunning (marched 9)"
    "\<not> isGameRunning overGame" "isGameRunning (quotaFed 8)" "\<not> isGameRunning quotaOver"
    by (simp_all add: example_defs overGame_def quotaFed_def quotaOver_def)
  have d: "isPaused (pauseGame runningGame)"
    by (simp add: pauseGame_def clearInterval_def example_defs)
  note step = paused_implies_running [of "pauseGame runningGame" 400 plainBrowser
      "sconst (1 / 4)" Pause "pauseGame runningGame"]
  note made = paused_implies_running [of freshGame 400 plainBrowser "sconst (1 / 4)"]
  note dead = paused_implies_running [of "marched 9" 400 plainBrowser "sconst (1 / 4)"
      Pause overGame]
  note fail = paused_implies_running [of "quotaFed 8" 400 plainBrowser "sconst (1 / 4)"
      Pause quotaOver QuotaExceededError]
  have "isGameRunning (pauseGame runningGame)" using step b d by blast
  moreover have "\<not> isPaused freshGame \<and> \<not> isGameRunning freshGame"
    using made construct_fresh by blast
  moreover have "\<not> isPaused overGame" using dead c update_over by blast
  moreover have "\<not> isPaused quotaOver" using fail c update_quotaWall by blast
  ultimately show ?thesis
    using a b c d construct_fresh update_over update_quotaWall by blast
qed

section \<open>Leaving the state after a collision\<close>

text \<open>
  Claim C5, as stated, fails: \<open>gameOver\<close> leaves the flags as \<open>stopGame\<close> sets them, so the
  guard of \<open>startGame\<close> lets a plain start through. After the tick into the wall,
  \<open>startGame\<close> returns a running game.
\<close>

theorem start_leaves_game_over:
  "update (marched 9) = Some (Inr overGame) \<and>
   \<not> isGameRunning overGame \<and>
   run Start overGame =
     Some (runningGame\<lparr>gameLoop := Some 1, timers := [1 \<mapsto> 150], nextTimerId := 2\<rparr>) \<and>
   isGameRunning (runningGame\<lparr>gameLoop := Some 1, timers := [1 \<mapsto> 150], nextTimerId := 2\<rparr>) \<and>
   Start \<noteq> Restart"
  by (simp add: update_over start_over) (simp add: overGame_def example_defs)

text \<open>
  Claim C5, amended. After \<open>gameOver\<close>, returned or thrown, the game is not running, and
  from a state that is not running a command that returns leaves the game running exactly
  when it is \<open>Start\<close> or \<open>Restart\<close>. Both return as soon as some round of the random source
  draws a cell off the three cells of the initial snake.
\<close>

theorem game_over_left_by_start_or_restart:
  "\<not> isGameRunning (stateLeft (gameOver g0)) \<and>
   (\<not> isGameRunning g \<and> run c g = Some g' \<longrightarrow>
      (isGameRunning g' \<longleftrightarrow> c = Start \<or> c = Restart)) \<and>
   (drawAt g k \<notin> {Point 10 10, Point 9 10, Point 8 10} \<longrightarrow>
      (\<exists>g'. run Start g = Some g') \<and> (\<exists>g'. run Restart g = Some g'))"
proof (intro conjI impI)
  show "\<not> isGameRunning (stateLeft (gameOver g0))" by (simp add: gameOver_fields)
next
  assume a: "\<not> isGameRunning g \<and> run c g = Some g'"
  then have "run c g = Some g'" by simp
  from run_flags(1) [OF this] a show "isGameRunning g' \<longleftrightarrow> c = Start \<or> c = Restart"
    by simp
next
  assume d: "drawAt g k \<notin> {Point 10 10, Point 9 10, Point 8 10}"
  then show "\<exists>g'. run Start g = Some g'" by (simp add: startGame_returns)
  from d have "drawAt (stopGame g) k \<notin> {Point 10 10, Point 9 10, Point 8 10}" by simp
  then show "\<exists>g'. run Restart g = Some g'"
    unfolding run.simps restartGame_def by (rule startGame_returns)
qed

theorem game_over_left_by_start_or_restart_witness:
  "\<not> isGameRunning overGame \<and>
   run Start overGame =
     Some (runningGame\<lparr>gameLoop := Some 1, timers := [1 \<mapsto> 150], nextTimerId := 2\<rparr>) \<and>
   isGameRunning (runningGame\<lparr>gameLoop := Some 1, timers := [1 \<mapsto> 150], nextTimerId := 2\<rparr>) \<and>
   run Resume overGame = Some overGame \<and>
   drawAt overGame 0 \<notin> {Point 10 10, Point 9 10, Point 8 10} \<and>
   (\<exists>g'. run Restart overGame = Some g' \<and> isGameRunning g')"
proof -
  let ?again = "runningGame\<lparr>gameLoop := Some 1, timers := [1 \<mapsto> 150], nextTimerId := 2\<rparr>"
  have a: "\<not> isGameRunning overGame" by (simp add: overGame_def example_defs)
  have b: "run Resume overGame = Some overGame" using a by (simp add: resumeGame_def)
  have c: "drawAt overGame 0 \<notin> {Point 10 10, Point 9 10, Point 8 10}"
    by (simp add: drawAt_def overGame_def example_defs)
  have "isGameRunning ?again"
    using game_over_left_by_start_or_restart [of "marched 9" overGame Start ?again] a start_over
    by simp
  moreover from game_over_left_by_start_or_restart [of "marched 9" overGame Restart _ 0] c
  obtain g' where r: "run Restart overGame = Some g'" by blast
  moreover have "isGameRunning g'"
    using game_over_left_by_start_or_restart [of "marched 9" overGame Restart g'] a r by blast
  moreover have "run Start overGame = Some ?again" by (simp add: start_over)
  ultimately show ?thesis using a b c by blast
qed

section \<open>The high score\<close>

lemma stopGame_store:
  "highScore (stopGame g) = highScore g" "setItemLog (stopGame g) = setItemLog g"
  "localStorage (stopGame g) = localStorage g" "score (stopGame g) = score g"
  by (simp_all add: stopGame_def clearInterval_def split: option.splits)

lemma startGame_store:
  assumes "startGame g = Some g'"
  shows "highScore g' = highScore g \<and> setItemLog g' = setItemLog g \<and>
         localStorage g' = localStorage g"
proof (cases "isGameRunning g")
  case True
  with assms show ?thesis by (simp add: startGame_def)
next
  case False
  from startGame_result [OF False assms] obtain f r where
    "g' = g\<lparr>snake := [Point 10 10, Point 9 10, Point 8 10], food := f,
            direction := Point 1 0, nextDirection := Point 1 0, score := 0,
            gameLoop := Some (nextTimerId g), isGameRunning := True, isPaused := False,
            timers := (timers g)(nextTimerId g \<mapsto> gameSpeed g),
            nextTimerId := Suc (nextTimerId g),
            randomSource := r\<rparr>" .
  then show ?thesis by simp
qed

lemma run_store:
  assumes "run c g = Some g'"
  shows "highScore g' = highScore g \<and> setItemLog g' = setItemLog g \<and>
         localStorage g' = localStorage g"
proof (cases c)
  case Start
  with assms show ?thesis by (simp add: startGame_store)
next
  case Pause
  with assms show ?thesis
    by (auto simp: pauseGame_def clearInterval_def split: option.splits)
next
  case Resume
  with assms show ?thesis by (auto simp: resumeGame_def setInterval_def)
next
  case Restart
  with assms have "startGame (stopGame g) = Some g'" by (simp add: restartGame_def)
  from startGame_store [OF this] show ?thesis by (simp add: stopGame_store)
next
  case (SetDifficulty d)
  with assms show ?thesis
    by (auto simp: setDifficulty_def setInterval_def clearInterval_def Let_def
          split: option.splits)
next
  case (SetSoundEnabled b)
  with assms show ?thesis by (auto simp: setSoundEnabled_def)
next
  case (ChangeDirection d)
  with assms show ?thesis by (auto simp: changeDirection_def split: if_splits)
qed

lemma update_store:
  assumes "update g = Some r"
  shows "if snake g \<noteq> [] \<and>
            (\<not> inBounds g (candidateHead g) \<or> candidateHead g \<in> set (snake g))
         then r = gameOver (g\<lparr>direction := nextDirection g\<rparr>)
         else highScore (stateLeft r) = highScore g \<and>
              setItemLog (stateLeft r) = setItemLog g \<and>
              localStorage (stateLeft r) = localStorage g"
proof (cases "snake g = []")
  case True
  with assms show ?thesis by (auto simp: update_empty)
next
  case ne: False
  show ?thesis
  proof (cases r)
    case (Inl t)
    obtain e g' where t: "t = (e, g')" by (cases t)
    from update_throws [OF assms [unfolded Inl t] ne] show ?thesis
      using ne by (simp add: Inl t)
  next
    case (Inr g')
    from assms [unfolded Inr] show ?thesis
      using ne by (cases rule: update_cases) (auto simp: Inr)
  qed
qed

text \<open>
  Claim C6, as stated, fails where it has the new high score written to the store: the
  write is one call of \<open>localStorage.setItem\<close>, which the host may refuse, and \<open>gameOver\<close>
  has set \<open>highScore\<close> before it calls. In \<open>deniedGame\<close> the score is 120 and the high score
  100, as in the scenario of the claim, and the storage area refuses the write: \<open>gameOver\<close>
  and the tick into the wall throw, the high score in memory is 120, and the store holds
  no high score. The same happens in the reachable state \<open>quotaFed 8\<close>, with a score of 10
  over a high score of 0.
\<close>

theorem high_score_write_refused:
  "score deniedGame = 120 \<and> highScore deniedGame = Finite 100 \<and>
   exceeds (score deniedGame) (highScore deniedGame) \<and>
   localStorage deniedGame highScoreKey = None \<and>
   gameOver deniedGame = Inl (QuotaExceededError, deniedOver) \<and>
   update deniedGame = Some (Inl (QuotaExceededError, deniedOver)) \<and>
   highScore deniedOver = Finite 120 \<and>
   setItemLog deniedOver = [(highScoreKey, ascii ''120'')] \<and>
   localStorage deniedOver highScoreKey = None \<and>
   reachable (quotaFed 8) \<and>
   score (quotaFed 8) = 10 \<and> highScore (quotaFed 8) = Finite 0 \<and>
   update (quotaFed 8) = Some (Inl (QuotaExceededError, quotaOver)) \<and>
   highScore quotaOver = Finite 10 \<and>
   localStorage quotaOver highScoreKey = None"
proof -
  have "gameOver deniedGame = Inl (QuotaExceededError, deniedOver)"
    by (simp add: deniedOver_def deniedGame_def recordGame_def example_defs gameOver_def
          stopGame_def clearInterval_def exceeds_def setItem_def numberToString_120)
  moreover have "reachable (quotaFed 8)" by (rule reachable_quotaFed) simp
  moreover have "score deniedGame = 120" "highScore deniedGame = Finite 100"
    "exceeds (score deniedGame) (highScore deniedGame)"
    "localStorage deniedGame highScoreKey = None"
    "highScore deniedOver = Finite 120"
    "setItemLog deniedOver = [(highScoreKey, ascii ''120'')]"
    "localStorage deniedOver highScoreKey = None"
    "score (quotaFed 8) = 10" "highScore (quotaFed 8) = Finite 0"
    "highScore quotaOver = Finite 10" "localStorage quotaOver highScoreKey = None"
    by (simp_all add: deniedOver_def deniedGame_def recordGame_def quotaOver_def quotaFed_def
          example_defs exceeds_def)
  ultimately show ?thesis
    using update_deniedWall update_quotaWall by (intro conjI) assumption+
qed

text \<open>
  Claim C6, amended. \<open>gameOver\<close> compares score and high score once. When the score
  exceeds the high score, the high score becomes the score and \<open>setItem\<close> is called exactly
  once, with the key of the game and the text of the score: if the host accepts the write,
  \<open>gameOver\<close> returns and the store holds the text of the score under the key; if the host
  refuses it, \<open>gameOver\<close> throws the error of the host and the store is as it was. When the
  score does not exceed the high score, \<open>gameOver\<close> returns and high score, storage and the
  list of writes stay as they are. No command touches any of the three. A tick either
  hits something, and then its outcome is that of \<open>gameOver\<close>, or it leaves all three alone.
  After \<open>gameOver\<close> on a reachable state no interval is armed, so no second tick follows.
\<close>

theorem high_score_written_at_game_over:
  "(exceeds (score g) (highScore g) \<longrightarrow>
      highScore (stateLeft (gameOver g)) = Finite (score g) \<and>
      setItemLog (stateLeft (gameOver g)) =
        setItemLog g @ [(highScoreKey, numberToString (score g))] \<and>
      (storageRefuses g highScoreKey (numberToString (score g)) = None \<longrightarrow>
         gameOver g = Inr (stateLeft (gameOver g)) \<and>
         localStorage (stateLeft (gameOver g)) =
           (localStorage g)(highScoreKey \<mapsto> numberToString (score g))) \<and>
      (storageRefuses g highScoreKey (numberToString (score g)) = Some e \<longrightarrow>
         gameOver g = Inl (e, stateLeft (gameOver g)) \<and>
         localStorage (stateLeft (gameOver g)) = localStorage g)) \<and>
   (\<not> exceeds (score g) (highScore g) \<longrightarrow>
      gameOver g = Inr (stopGame g) \<and>
      highScore (stopGame g) = highScore g \<and> setItemLog (stopGame g) = setItemLog g \<and>
      localStorage (stopGame g) = localStorage g) \<and>
   (exceeds (score g) (Finite h) \<longleftrightarrow> h < score g) \<and>
   (run c g = Some g' \<longrightarrow>
      highScore g' = highScore g \<and> setItemLog g' = setItemLog g \<and>
      localStorage g' = localStorage g) \<and>
   (update g = Some r \<longrightarrow>
      (if snake g \<noteq> [] \<and>
          (\<not> inBounds g (candidateHead g) \<or> candidateHead g \<in> set (snake g))
       then r = gameOver (g\<lparr>direction := nextDirection g\<rparr>)
       else highScore (stateLeft r) = highScore g \<and>
            setItemLog (stateLeft r) = setItemLog g \<and>
            localStorage (stateLeft r) = localStorage g)) \<and>
   (reachable g \<longrightarrow> timers (stateLeft (gameOver g)) = Map.empty)"
proof (intro conjI impI)
  assume x: "exceeds (score g) (highScore g)"
  from x show "highScore (stateLeft (gameOver g)) = Finite (score g)"
    by (cases g rule: gameOver_cases) simp_all
  from x show "setItemLog (stateLeft (gameOver g)) =
      setItemLog g @ [(highScoreKey, numberToString (score g))]"
    by (cases g rule: gameOver_cases) simp_all
  {
    assume "storageRefuses g highScoreKey (numberToString (score g)) = None"
    with x show "gameOver g = Inr (stateLeft (gameOver g))"
      and "localStorage (stateLeft (gameOver g)) =
        (localStorage g)(highScoreKey \<mapsto> numberToString (score g))"
      by (cases g rule: gameOver_cases; simp)+
  }
  {
    assume "storageRefuses g highScoreKey (numberToString (score g)) = Some e"
    with x show "gameOver g = Inl (e, stateLeft (gameOver g))"
      and "localStorage (stateLeft (gameOver g)) = localStorage g"
      by (cases g rule: gameOver_cases; simp add: stopGame_store)+
  }
next
  assume "\<not> exceeds (score g) (highScore g)"
  then show "gameOver g = Inr (stopGame g)"
    by (cases g rule: gameOver_cases) simp_all
  show "highScore (stopGame g) = highScore g" and "setItemLog (stopGame g) = setItemLog g"
    and "localStorage (stopGame g) = localStorage g"
    by (simp_all add: stopGame_store)
next
  show "exceeds (score g) (Finite h) \<longleftrightarrow> h < score g" by (simp add: exceeds_def)
next
  assume "run c g = Some g'"
  from run_store [OF this] show "highScore g' = highScore g"
    and "setItemLog g' = setItemLog g" and "localStorage g' = localStorage g"
    by simp_all
next
  assume "update g = Some r"
  then show "if snake g \<noteq> [] \<and>
          (\<not> inBounds g (candidateHead g) \<or> candidateHead g \<in> set (snake g))
       then r = gameOver (g\<lparr>direction := nextDirection g\<rparr>)
       else highScore (stateLeft r) = highScore g \<and>
            setItemLog (stateLeft r) = setItemLog g \<and>
            localStorage (stateLeft r) = localStorage g"
    by (rule update_store)
next
  assume "reachable g"
  then have "invariant g" by (rule reachable_invariant)
  then show "timers (stateLeft (gameOver g)) = Map.empty"
    by (simp add: gameOver_fields timers_cleared)
qed

theorem high_score_written_at_game_over_witness:
  "score recordGame = 120 \<and> highScore recordGame = Finite 100 \<and> setItemLog recordGame = [] \<and>
   exceeds (score recordGame) (highScore recordGame) \<and>
   storageRefuses recordGame highScoreKey (numberToString (score recordGame)) = None \<and>
   snake recordGame \<noteq> [] \<and> \<not> inBounds recordGame (candidateHead recordGame) \<and>
   update recordGame = Some (gameOver recordGame) \<and>
   gameOver recordGame = Inr (stateLeft (gameOver recordGame)) \<and>
   highScore (stateLeft (gameOver recordGame)) = Finite 120 \<and>
   setItemLog (stateLeft (gameOver recordGame)) = [(highScoreKey, ascii ''120'')] \<and>
   localStorage (stateLeft (gameOver recordGame)) highScoreKey = Some (ascii ''120'') \<and>
   exceeds (score deniedGame) (highScore deniedGame) \<and>
   storageRefuses deniedGame highScoreKey (numberToString (score deniedGame)) =
     Some QuotaExceededError \<and>
   gameOver deniedGame = Inl (QuotaExceededError, stateLeft (gameOver deniedGame)) \<and>
   highScore (stateLeft (gameOver deniedGame)) = Finite 120 \<and>
   setItemLog (stateLeft (gameOver deniedGame)) = [(highScoreKey, ascii ''120'')] \<and>
   localStorage (stateLeft (gameOver deniedGame)) highScoreKey = None \<and>
   \<not> exceeds (score overGame) (highScore overGame) \<and>
   gameOver overGame = Inr (stopGame overGame) \<and>
   setItemLog (stopGame overGame) = setItemLog overGame \<and>
   run Pause runningGame = Some (pauseGame runningGame) \<and>
   setItemLog (pauseGame runningGame) = setItemLog runningGame \<and>
   update runningGame = Some (Inr (marched 1)) \<and>
   setItemLog (marched 1) = setItemLog runningGame \<and>
   reachable (marched 9) \<and> timers (stateLeft (gameOver (marched 9))) = Map.empty"
proof -
  have a: "score recordGame = 120" "highScore recordGame = Finite 100"
    "setItemLog recordGame = []" "exceeds (score recordGame) (highScore recordGame)"
    "storageRefuses recordGame highScoreKey (numberToString (score recordGame)) = None"
    "snake recordGame \<noteq> []"
    by (simp_all add: example_defs recordGame_def exceeds_def)
  have a': "localStorage recordGame = Map.empty" "localStorage deniedGame = Map.empty"
    "score deniedGame = 120" "setItemLog deniedGame = []"
    by (simp_all add: example_defs recordGame_def deniedGame_def)
  have b: "exceeds (score deniedGame) (highScore deniedGame)"
    "storageRefuses deniedGame highScoreKey (numberToString (score deniedGame)) =
       Some QuotaExceededError"
    "\<not> exceeds (score overGame) (highScore overGame)"
    by (simp_all add: example_defs recordGame_def deniedGame_def overGame_def exceeds_def)
  have c: "\<not> inBounds recordGame (candidateHead recordGame)"
    by (simp add: candidateHead_def inBounds_def example_defs recordGame_def)
  have d: "recordGame\<lparr>direction := nextDirection recordGame\<rparr> = recordGame"
    by (simp add: example_defs recordGame_def)
  have p: "run Pause runningGame = Some (pauseGame runningGame)" by simp
  have r: "reachable (marched 9)" by (rule reachable_marched) simp
  have m: "update runningGame = Some (Inr (marched 1))"
    using update_marched [of 0] by (simp add: marched_0)
  have m': "snake runningGame \<noteq> []" "inBounds runningGame (candidateHead runningGame)"
    "candidateHead runningGame \<notin> set (snake runningGame)"
    by (simp_all add: candidateHead_def inBounds_def example_defs)
  note rec = high_score_written_at_game_over
    [of recordGame QuotaExceededError 100 Pause recordGame "gameOver recordGame"]
  note den = high_score_written_at_game_over
    [of deniedGame QuotaExceededError 100 Pause deniedGame "gameOver deniedGame"]
  note over = high_score_written_at_game_over
    [of overGame QuotaExceededError 100 Pause overGame "gameOver overGame"]
  note paused = high_score_written_at_game_over
    [of runningGame QuotaExceededError 100 Pause "pauseGame runningGame" "Inr (marched 1)"]
  note wall = high_score_written_at_game_over
    [of "marched 9" QuotaExceededError 100 Pause "marched 9" "gameOver (marched 9)"]
  have u: "update recordGame = Some (gameOver recordGame)"
    using update_collide [OF a(6) disjI1 [OF c]] by (simp add: d)
  have "gameOver recordGame = Inr (stateLeft (gameOver recordGame))"
    and "highScore (stateLeft (gameOver recordGame)) = Finite 120"
    and "setItemLog (stateLeft (gameOver recordGame)) = [(highScoreKey, ascii ''120'')]"
    and "localStorage (stateLeft (gameOver recordGame)) highScoreKey = Some (ascii ''120'')"
    using rec a a' by (simp_all add: numberToString_120)
  moreover have "gameOver deniedGame = Inl (QuotaExceededError, stateLeft (gameOver deniedGame))"
    and "highScore (stateLeft (gameOver deniedGame)) = Finite 120"
    and "setItemLog (stateLeft (gameOver deniedGame)) = [(highScoreKey, ascii ''120'')]"
    and "localStorage (stateLeft (gameOver deniedGame)) highScoreKey = None"
    using den b a' by (simp_all add: numberToString_120)
  moreover have "gameOver overGame = Inr (stopGame overGame)"
    and "setItemLog (stopGame overGame) = setItemLog overGame"
    using over b(3) by blast+
  moreover have "setItemLog (pauseGame runningGame) = setItemLog runningGame"
    using paused p by blast
  moreover have "setItemLog (marched 1) = setItemLog runningGame"
    using paused m m' by simp
  moreover have "timers (stateLeft (gameOver (marched 9))) = Map.empty"
    using wall r by blast
  ultimately show ?thesis
    using a b c u p r m by (intro conjI) assumption+
qed

section \<open>Reading the high score at construction\<close>






















end
